theory Spec2Isabelle
  imports Main "HOL-Library.Word"
begin

section \<open>Bytes, identifiers and the wire types\<close>

type_synonym byte = "8 word"
type_synonym uint64 = "64 word"

text \<open>
  \<open>models.Identifier\<close> is a 20-byte array (the result type of \<open>sha1.Sum\<close>).
  \<open>id_bytes\<close> is the slice \<open>id[:]\<close>.
\<close>

typedef Identifier = "{xs :: byte list. length xs = 20}"
  morphisms id_bytes Abs_Identifier
  by (rule exI [of _ "replicate 20 0"]) simp

text \<open>
  \<open>id := models.Identifier{}; copy(id[:], idSlice)\<close>: the bytes of the slice are copied over a
  zeroed array, as many as fit.
\<close>

definition copy_id :: "byte list \<Rightarrow> Identifier" where
  "copy_id idSlice = Abs_Identifier (take 20 (idSlice @ replicate 20 0))"

text \<open>Two identifiers are compared through their bytes, as \<open>bytes.Compare\<close> does.\<close>

instantiation Identifier :: equal
begin

definition equal_Identifier :: "Identifier \<Rightarrow> Identifier \<Rightarrow> bool" where
  "equal_Identifier a b \<longleftrightarrow> id_bytes a = id_bytes b"

instance
  by standard (simp add: equal_Identifier_def id_bytes_inject)

end

text \<open>\<open>type idSecret struct { ID models.Identifier; Secret []byte }\<close> (handlers.go:17).\<close>

record idSecret =
  pair_ID :: Identifier
  pair_Secret :: "byte list"

text \<open>\<open>protocol.SharedSecret\<close>, as the handlers and the client use it: an id and a secret.\<close>

record SharedSecret =
  share_ID :: Identifier
  share_Secret :: "byte list"

text \<open>
  \<open>protocol.Header\<close>, with the fields the handlers and the client read or write. \<open>Type\<close> and
  \<open>PubKey\<close> are carried by the transport and are read by no handler; they are left out.
\<close>

record Header =
  Key :: Identifier
  From :: Identifier
  DataLength :: uint64
  ResourceName :: string
  Log :: bool
  Clock :: uint64
  Secret :: "byte list"
  SharedWith :: "SharedSecret list"

datatype Status = Success | Error

datatype Method = GetFileMethod | PostFileMethod | DeleteFileMethod
  | GetPublicKeyMethod | PostPublicKeyMethod

record Request =
  req_Header :: Header
  req_Method :: Method
  req_Data :: "byte list"

record Response =
  resp_Status :: Status
  resp_Header :: Header
  resp_Data :: "byte list"

text \<open>Go's zero values: an all-zero identifier, empty slices, zero counters.\<close>

definition zero_Identifier :: Identifier where
  "zero_Identifier = copy_id []"

definition zero_Header :: Header where
  "zero_Header = \<lparr>Key = zero_Identifier, From = zero_Identifier, DataLength = 0,
     ResourceName = [], Log = False, Clock = 0, Secret = [], SharedWith = []\<rparr>"

text \<open>\<open>protocol.Response{Status: protocol.Error}\<close>, the reply of every failing branch.\<close>

definition error_Response :: Response where
  "error_Response = \<lparr>resp_Status = Error, resp_Header = zero_Header, resp_Data = []\<rparr>"

section \<open>The server: clock, block store, readers\<close>

text \<open>
  Modelled from the spec: \<open>models.IncrementClock\<close> (package \<open>models\<close> is not among the
  sources). The spec's logical clock is a process-wide 64-bit counter with
  \<open>clock := max(clock, peer_clock) + 1\<close>; the call returns the new value.
\<close>

definition IncrementClock :: "uint64 \<Rightarrow> uint64 \<Rightarrow> uint64" where
  "IncrementClock clock peer_clock = max clock peer_clock + 1"

text \<open>
  Modelled from the spec: the block store behind \<open>Get\<close>, \<open>Post\<close> and \<open>Delete\<close> of package
  \<open>file\<close> (their file is not among the sources). The spec treats it as a key-to-bytes map
  with atomic replace. The handlers test the error result of each of the three calls;
  \<open>disk_ok\<close> decides whether a write or a removal succeeds, \<open>Get\<close> fails on a key that holds
  no blob.
\<close>

record server =
  blobs :: "Identifier \<rightharpoonup> byte list"
  clock :: uint64
  disk_ok :: bool

datatype io_error = EOF | NotFound | StorageFailure

definition Get :: "server \<Rightarrow> Identifier \<Rightarrow> io_error + byte list" where
  "Get s k = (case blobs s k of None \<Rightarrow> Inl NotFound | Some b \<Rightarrow> Inr b)"

definition Post :: "server \<Rightarrow> Identifier \<Rightarrow> byte list \<Rightarrow> io_error + server" where
  "Post s k d = (if disk_ok s then Inr (s\<lparr>blobs := (blobs s)(k \<mapsto> d)\<rparr>) else Inl StorageFailure)"

definition Delete :: "server \<Rightarrow> Identifier \<Rightarrow> io_error + server" where
  "Delete s k = (if disk_ok s then Inr (s\<lparr>blobs := (blobs s)(k := None)\<rparr>) else Inl StorageFailure)"

text \<open>
  \<open>buf.Read(p)\<close> on the blob returned by \<open>Get\<close>, with \<open>n = len(p)\<close>: up to \<open>n\<close> bytes are
  read; at the end of the blob the call reads nothing and reports \<open>io.EOF\<close>. The result is the
  bytes read, the error, and the unread rest.
\<close>

definition Read :: "nat \<Rightarrow> byte list \<Rightarrow> byte list \<times> io_error option \<times> byte list" where
  "Read n buf = (if 0 < n \<and> buf = [] then ([], Some EOF, [])
                 else (take n buf, None, drop n buf))"

definition sessionKeyLen :: nat where
  "sessionKeyLen = 256"

text \<open>
  The owner-table loop shared by \<open>GetFileHandler\<close>, \<open>PostFileHandler\<close> and
  \<open>DeleteFileHandler\<close>: \<open>for i := byte(0); i < ownerCount[0]; i++\<close>. The first argument is the
  number of iterations left; each one reads a 20-byte id and a 256-byte secret, gives up on
  a short read or a read error (\<open>None\<close>: the handler replies \<open>Error\<close>), and appends the record.
\<close>

fun read_owners :: "nat \<Rightarrow> byte list \<Rightarrow> idSecret list \<Rightarrow> (idSecret list \<times> byte list) option" where
  "read_owners 0 buf idSecrets = Some (idSecrets, buf)"
| "read_owners (Suc n) buf idSecrets =
     (case Read 20 buf of (idSlice, err, buf1) \<Rightarrow>
        if length idSlice \<noteq> 20 then None
        else if err \<noteq> None then None
        else (case Read sessionKeyLen buf1 of (secretSlice, err2, buf2) \<Rightarrow>
          if length secretSlice \<noteq> sessionKeyLen then None
          else if err2 \<noteq> None then None
          else read_owners n buf2
                 (idSecrets @ [\<lparr>pair_ID = copy_id idSlice, pair_Secret = secretSlice\<rparr>])))"

text \<open>
  The ownership check: \<open>found := false; for _, pair := range idSecrets { if
  bytes.Compare(pair.ID[:], r.Header.From[:]) == 0 { found = true; response.Header.Secret =
  pair.Secret } }\<close>. The state is \<open>found\<close> and the response's secret; the loop has no
  \<open>break\<close>.
\<close>

fun check_owner :: "Identifier \<Rightarrow> idSecret list \<Rightarrow> bool \<times> byte list \<Rightarrow> bool \<times> byte list" where
  "check_owner from_id [] st = st"
| "check_owner from_id (pair # pairs) st =
     check_owner from_id pairs
       (if id_bytes (pair_ID pair) = id_bytes from_id then (True, pair_Secret pair) else st)"

text \<open>
  The trailing loop \<open>for n := 1; n > 0; { n, err = buf.Read(tmp); response.Data =
  append(response.Data, tmp[:n]...); ... }\<close> with a 256-byte \<open>tmp\<close>: \<open>io.EOF\<close> continues (and
  the loop then ends, \<open>n\<close> being 0), any other error makes the handler reply \<open>Error\<close>.
\<close>

function read_data :: "byte list \<Rightarrow> byte list \<Rightarrow> io_error + byte list" where
  "read_data buf data =
     (case Read 256 buf of (tmp, err, buf1) \<Rightarrow>
        (case err of
           Some e \<Rightarrow>
             if e = EOF then (if 0 < length tmp then read_data buf1 (data @ tmp) else Inr (data @ tmp))
             else Inl e
         | None \<Rightarrow> if 0 < length tmp then read_data buf1 (data @ tmp) else Inr (data @ tmp)))"
  by pat_completeness auto
termination
  by (relation "measure (\<lambda>(buf, data). length buf)") (auto simp: Read_def split: if_splits)

section \<open>The server handlers (file/handlers.go)\<close>

text \<open>
  Each handler takes the server state and the request and returns the response with the new
  state. The mutex \<open>fileMu\<close> makes a handler's body atomic; logging is left out.
\<close>

definition GetPublicKeyHandler :: "server \<Rightarrow> Request \<Rightarrow> Response \<times> server" where
  "GetPublicKeyHandler s r =
     (let timestamp = IncrementClock (clock s) (Clock (req_Header r));
          s1 = s\<lparr>clock := timestamp\<rparr>;
          response = \<lparr>resp_Status = Success, resp_Header = zero_Header\<lparr>Clock := timestamp\<rparr>,
                      resp_Data = []\<rparr>
      in case Get s1 (Key (req_Header r)) of
           Inl e \<Rightarrow> (error_Response, s1)
         | Inr buf \<Rightarrow>
             (case read_data buf (resp_Data response) of
                Inl e \<Rightarrow> (error_Response, s1)
              | Inr data \<Rightarrow> (response\<lparr>resp_Data := data\<rparr>, s1)))"

definition GetFileHandler :: "server \<Rightarrow> Request \<Rightarrow> Response \<times> server" where
  "GetFileHandler s r =
     (let response = \<lparr>resp_Status = Success, resp_Header = zero_Header, resp_Data = []\<rparr>
      in case Get s (Key (req_Header r)) of
           Inl e \<Rightarrow> (error_Response, s)
         | Inr buf \<Rightarrow>
             (case Read 1 buf of (ownerCount, err, buf1) \<Rightarrow>
                if length ownerCount \<noteq> 1 then (error_Response, s)
                else if err \<noteq> None then (error_Response, s)
                else (case read_owners (unat (ownerCount ! 0)) buf1 [] of
                        None \<Rightarrow> (error_Response, s)
                      | Some (idSecrets, buf2) \<Rightarrow>
                          (case check_owner (From (req_Header r)) idSecrets
                                  (False, Secret (resp_Header response)) of
                             (found, secret) \<Rightarrow>
                               if \<not> found then (error_Response, s)
                               else (case read_data buf2 (resp_Data response) of
                                       Inl e \<Rightarrow> (error_Response, s)
                                     | Inr data \<Rightarrow>
                                         (response\<lparr>resp_Header := (resp_Header response)\<lparr>Secret := secret\<rparr>,
                                                   resp_Data := data\<rparr>, s))))))"

definition PostPublicKeyHandler :: "server \<Rightarrow> Request \<Rightarrow> Response \<times> server" where
  "PostPublicKeyHandler s r =
     (let timestamp = IncrementClock (clock s) (Clock (req_Header r));
          s1 = s\<lparr>clock := timestamp\<rparr>;
          response = \<lparr>resp_Status = Error, resp_Header = zero_Header\<lparr>Clock := timestamp\<rparr>,
                      resp_Data = []\<rparr>
      in case Post s1 (Key (req_Header r)) (req_Data r) of
           Inl e \<Rightarrow> (error_Response, s1)
         | Inr s2 \<Rightarrow> (response\<lparr>resp_Status := Success\<rparr>, s2))"

text \<open>
  The two header loops of \<open>PostFileHandler\<close>: \<open>header = append(header, pair.ID[:]...); header =
  append(header, pair.Secret...)\<close> over the parsed owners, and the same over
  \<open>r.Header.SharedWith\<close>.
\<close>

fun owner_bytes :: "idSecret list \<Rightarrow> byte list" where
  "owner_bytes [] = []"
| "owner_bytes (pair # pairs) = id_bytes (pair_ID pair) @ pair_Secret pair @ owner_bytes pairs"

fun shared_bytes :: "SharedSecret list \<Rightarrow> byte list" where
  "shared_bytes [] = []"
| "shared_bytes (shareWith # rest) =
     id_bytes (share_ID shareWith) @ share_Secret shareWith @ shared_bytes rest"

text \<open>
  \<open>byte(n)\<close> of a Go \<open>int\<close> keeps the low eight bits: \<open>of_nat\<close> into \<open>8 word\<close>.
  \<open>PostFileHandler\<close> and \<open>PostPublicKeyHandler\<close> build \<open>response\<close> with the clock only and
  set its status to \<open>Success\<close> just before they return it; until then the status field of
  the model holds \<open>Error\<close>, and no branch returns it unset.
\<close>

definition PostFileHandler :: "server \<Rightarrow> Request \<Rightarrow> Response \<times> server" where
  "PostFileHandler s r =
     (let h = req_Header r;
          got = Get s (Key h);
          timestamp = IncrementClock (clock s) (Clock h);
          s1 = s\<lparr>clock := timestamp\<rparr>;
          response = \<lparr>resp_Status = Error, resp_Header = zero_Header\<lparr>Clock := timestamp\<rparr>,
                      resp_Data = []\<rparr>
      in case got of
           Inl e \<Rightarrow>
             (let header = [of_nat (1 + length (SharedWith h))] @ id_bytes (From h) @ Secret h
                             @ shared_bytes (SharedWith h)
              in case Post s1 (Key h) (header @ req_Data r) of
                   Inl e \<Rightarrow> (error_Response, s1)
                 | Inr s2 \<Rightarrow> (response\<lparr>resp_Status := Success\<rparr>, s2))
         | Inr buf \<Rightarrow>
             (case Read 1 buf of (ownerCount, err, buf1) \<Rightarrow>
                if length ownerCount \<noteq> 1 then (error_Response, s1)
                else if err \<noteq> None then (error_Response, s1)
                else (case read_owners (unat (ownerCount ! 0)) buf1 [] of
                        None \<Rightarrow> (error_Response, s1)
                      | Some (idSecrets, buf2) \<Rightarrow>
                          (case check_owner (From h) idSecrets (False, Secret (resp_Header response)) of
                             (found, secret) \<Rightarrow>
                               if \<not> found then (error_Response, s1)
                               else
                                 (let header = [of_nat (length idSecrets + length (SharedWith h))]
                                                 @ owner_bytes idSecrets @ shared_bytes (SharedWith h)
                                  in case Post s1 (Key h) (header @ req_Data r) of
                                       Inl e \<Rightarrow> (error_Response, s1)
                                     | Inr s2 \<Rightarrow>
                                         (response\<lparr>resp_Header := (resp_Header response)\<lparr>Secret := secret\<rparr>,
                                                   resp_Status := Success\<rparr>, s2))))))"

text \<open>
  \<open>DeleteFileHandler\<close> increments the clock only after the owner table has been read. On a
  failed \<open>Get\<close> the source calls \<open>buf.Close()\<close> on the failed result before replying
  \<open>Error\<close>; the model replies \<open>Error\<close> there.
\<close>

definition DeleteFileHandler :: "server \<Rightarrow> Request \<Rightarrow> Response \<times> server" where
  "DeleteFileHandler s r =
     (case Get s (Key (req_Header r)) of
        Inl e \<Rightarrow> (error_Response, s)
      | Inr buf \<Rightarrow>
          (case Read 1 buf of (ownerCount, err, buf1) \<Rightarrow>
             if length ownerCount \<noteq> 1 then (error_Response, s)
             else if err \<noteq> None then (error_Response, s)
             else (case read_owners (unat (ownerCount ! 0)) buf1 [] of
                     None \<Rightarrow> (error_Response, s)
                   | Some (idSecrets, buf2) \<Rightarrow>
                       (let timestamp = IncrementClock (clock s) (Clock (req_Header r));
                            s1 = s\<lparr>clock := timestamp\<rparr>;
                            response = \<lparr>resp_Status = Success,
                                        resp_Header = zero_Header\<lparr>Clock := timestamp\<rparr>,
                                        resp_Data = []\<rparr>
                        in case check_owner (From (req_Header r)) idSecrets
                                  (False, Secret (resp_Header response)) of
                             (found, secret) \<Rightarrow>
                               if \<not> found then (error_Response, s1)
                               else (case Delete s1 (Key (req_Header r)) of
                                       Inl e \<Rightarrow> (error_Response, s1)
                                     | Inr s2 \<Rightarrow>
                                         (response\<lparr>resp_Header := (resp_Header response)\<lparr>Secret := secret\<rparr>\<rparr>,
                                          s2))))))"

section \<open>The client: transaction log and Synchronize\<close>

text \<open>
  The transaction-log types of package \<open>models\<close>, as \<open>Synchronize\<close>, \<open>PostFile\<close> and
  \<open>DeleteFile\<close> use them; timestamps are the 64-bit clock values.
\<close>

datatype Operation = UpdateOperation | DeleteOperation

record TransactionEntry =
  Operation :: Operation
  ClientID :: Identifier
  Timestamp :: uint64

record TransactionEntity =
  entity_ResourceName :: string
  entity_ResourceID :: Identifier
  Entries :: "TransactionEntry list"

type_synonym TransactionLog = "string \<rightharpoonup> TransactionEntity"

text \<open>
  Go's run-time panics: the index panic on \<open>Entries[0]\<close> of an empty slice, and the nil
  dereference of a method call on a nil interface value. Nothing in the client recovers from
  a panic: it ends the run.
\<close>

datatype panic = IndexOutOfRange | NilDereference

text \<open>
  \<open>for i, _ := range v.Entries { if v.Entries[i].Timestamp >= lastEntry.Timestamp { lastEntry
  = v.Entries[i] } }\<close>, started from \<open>lastEntry := v.Entries[0]\<close>, which panics on an empty
  slice. The comparison is the unsigned one of \<open>uint64\<close>.
\<close>

fun scan_entries :: "TransactionEntry \<Rightarrow> TransactionEntry list \<Rightarrow> TransactionEntry" where
  "scan_entries lastEntry [] = lastEntry"
| "scan_entries lastEntry (e # es) =
     scan_entries (if Timestamp e \<ge> Timestamp lastEntry then e else lastEntry) es"

definition last_entry :: "TransactionEntry list \<Rightarrow> panic + TransactionEntry" where
  "last_entry entries =
     (case entries of [] \<Rightarrow> Inl IndexOutOfRange | e0 # rest \<Rightarrow> Inr (scan_entries e0 entries))"

text \<open>
  The calls \<open>Synchronize\<close> makes, in order. \<open>GetFile\<close>, \<open>PostFile\<close> and \<open>DeleteFile\<close> talk to
  the network and fetch their own copy of the log; none of them writes to the two logs
  \<open>Synchronize\<close> iterates over, so the calls are recorded and not run: each call is taken
  to return to \<open>Synchronize\<close>.
\<close>

datatype action = CallGetFile string | CallPostFile string | CallDeleteFile string
  | CallRemove string

text \<open>The body of \<open>for k, v := range tl\<close> (lines 640 to 686) for one key.\<close>

definition reconcile :: "TransactionLog \<Rightarrow> string \<Rightarrow> TransactionEntity \<Rightarrow> panic + action list" where
  "reconcile oldTransactionLog k v =
     (case last_entry (Entries v) of
        Inl p \<Rightarrow> Inl p
      | Inr lastEntry \<Rightarrow>
          (case oldTransactionLog k of
             None \<Rightarrow> Inr [CallGetFile k]
           | Some oldEntity \<Rightarrow>
               (case last_entry (Entries oldEntity) of
                  Inl p \<Rightarrow> Inl p
                | Inr oldLastEntry \<Rightarrow>
                    if Timestamp oldLastEntry < Timestamp lastEntry then
                      (if Operation lastEntry = DeleteOperation then Inr [CallRemove k]
                       else Inr [CallGetFile k])
                    else if Timestamp oldLastEntry = Timestamp lastEntry then Inr []
                    else
                      (if Operation oldLastEntry = DeleteOperation then Inr [CallDeleteFile k]
                       else Inr [CallPostFile k]))))"

text \<open>
  The loop over the map. Go visits the keys of a map in an unspecified order: the order is
  the list \<open>ks\<close>. A panic ends the loop; the calls made before it stay made.
\<close>

fun sync_range :: "TransactionLog \<Rightarrow> TransactionLog \<Rightarrow> string list \<Rightarrow> action list \<times> panic option" where
  "sync_range tlog oldTransactionLog [] = ([], None)"
| "sync_range tlog oldTransactionLog (k # ks) =
     (case tlog k of
        None \<Rightarrow> sync_range tlog oldTransactionLog ks
      | Some v \<Rightarrow>
          (case reconcile oldTransactionLog k v of
             Inl p \<Rightarrow> ([], Some p)
           | Inr calls \<Rightarrow>
               (case sync_range tlog oldTransactionLog ks of
                  (more_calls, p) \<Rightarrow> (calls @ more_calls, p))))"

text \<open>
  \<open>filepath.Walk(localPath, walkFn)\<close> calls \<open>walkFn(path, fi, err)\<close> once for the root and
  once for every file and directory below it, in lexical order. When \<open>Lstat\<close> fails on a
  path, \<open>fi\<close> is nil and \<open>err\<close> is set. A visit is the relative path (the source trims
  \<open>localPath\<close> first) and what \<open>walkFn\<close> reads of \<open>fi\<close>: \<open>None\<close> for the nil
  \<open>FileInfo\<close>, otherwise the value of \<open>fi.IsDir()\<close>.

  \<open>walkFn\<close> (lines 619 to 633) never looks at \<open>err\<close>: it calls \<open>fi.IsDir()\<close> at once, which
  panics on the nil \<open>FileInfo\<close>. For a regular file whose path is not a key of the fetched
  log it calls \<open>PostFile\<close>. It always returns nil, so the walk goes on to the next visit.
\<close>

type_synonym visit = "string \<times> bool option"

fun walk_files :: "TransactionLog \<Rightarrow> visit list \<Rightarrow> action list \<times> panic option" where
  "walk_files tlog [] = ([], None)"
| "walk_files tlog ((path, fi) # visits) =
     (case fi of
        None \<Rightarrow> ([], Some NilDereference)
      | Some isDir \<Rightarrow>
          (case walk_files tlog visits of
             (more_calls, p) \<Rightarrow>
               ((if \<not> isDir \<and> tlog path = None then [CallPostFile path] else []) @ more_calls, p)))"

text \<open>
  \<open>Synchronize\<close>: \<open>fetched\<close> is the result of \<open>GetTransactionLog\<close> (\<open>None\<close> when it fails: the
  source logs the error and goes on with the empty log), \<open>visits\<close> the visits of the walk in
  order, \<open>ks\<close> the order of the range loop. The walk runs first, then the loop. The result is
  the calls made and either the panic that ended the run or the returned log.
\<close>

definition Synchronize :: "TransactionLog option \<Rightarrow> visit list \<Rightarrow> string list \<Rightarrow> TransactionLog
    \<Rightarrow> action list \<times> (panic + TransactionLog)" where
  "Synchronize fetched visits ks oldTransactionLog =
     (let tlog = (case fetched of None \<Rightarrow> Map.empty | Some t \<Rightarrow> t)
      in case walk_files tlog visits of
           (posted, Some p) \<Rightarrow> (posted, Inl p)
         | (posted, None) \<Rightarrow>
             (case sync_range tlog oldTransactionLog ks of
                (calls, Some p) \<Rightarrow> (posted @ calls, Inl p)
              | (calls, None) \<Rightarrow> (posted @ calls, Inr tlog)))"

text \<open>
  The request the client's \<open>PostFile\<close> (lines 775 to 837) sends to the responsible node.
  \<open>data\<close> is the result of \<open>ioutil.ReadFile\<close> on the local file, \<open>clk\<close> is
  \<open>models.GetClock()\<close>, and \<open>sha1_Sum\<close> stands for \<open>sha1.Sum([]byte(path))\<close> of the Go library.
\<close>

definition PostFile_request :: "(string \<Rightarrow> Identifier) \<Rightarrow> Identifier \<Rightarrow> string \<Rightarrow> byte list \<Rightarrow> uint64
    \<Rightarrow> Request" where
  "PostFile_request sha1_Sum clientID path data clk =
     \<lparr>req_Header = zero_Header\<lparr>Key := sha1_Sum path, From := clientID,
          DataLength := of_nat (length data), ResourceName := path, Log := True, Clock := clk\<rparr>,
      req_Method = PostFileMethod,
      req_Data = data\<rparr>"

text \<open>\<open>aes.BlockSize\<close> of the Go library, the length of an IV.\<close>

definition aes_BlockSize :: nat where
  "aes_BlockSize = 16"

section \<open>Example inputs\<close>

text \<open>
  Three users, a resource key, owner records and share records with 256-byte secrets, a
  server that holds one blob under the resource key, and a request for that key.
\<close>

definition alice :: Identifier where
  "alice = copy_id (replicate 20 1)"

definition bob :: Identifier where
  "bob = copy_id (replicate 20 2)"

definition resource_key :: Identifier where
  "resource_key = copy_id (replicate 20 9)"

definition owner_rec :: "Identifier \<Rightarrow> byte \<Rightarrow> idSecret" where
  "owner_rec i b = \<lparr>pair_ID = i, pair_Secret = replicate 256 b\<rparr>"

definition share_rec :: "Identifier \<Rightarrow> byte \<Rightarrow> SharedSecret" where
  "share_rec i b = \<lparr>share_ID = i, share_Secret = replicate 256 b\<rparr>"

definition server_with :: "byte list \<Rightarrow> server" where
  "server_with blob = \<lparr>blobs = [resource_key \<mapsto> blob], clock = 5, disk_ok = True\<rparr>"

definition empty_server :: server where
  "empty_server = \<lparr>blobs = Map.empty, clock = 5, disk_ok = True\<rparr>"

definition request_from :: "Identifier \<Rightarrow> SharedSecret list \<Rightarrow> Request" where
  "request_from i shared =
     \<lparr>req_Header = zero_Header\<lparr>Key := resource_key, From := i, Clock := 7,
          Secret := replicate 256 12, SharedWith := shared\<rparr>,
      req_Method = PostFileMethod,
      req_Data = [1, 2, 3]\<rparr>"

text \<open>An envelope with one owner, one with the same id twice, and one with 255 owners.\<close>

definition single_envelope :: "byte list" where
  "single_envelope = 1 # owner_bytes [owner_rec alice 10] @ [42]"

definition dup_envelope :: "byte list" where
  "dup_envelope = 2 # owner_bytes [owner_rec alice 10, owner_rec alice 11] @ [42]"

definition full_owners :: "idSecret list" where
  "full_owners = owner_rec alice 10 # replicate 254 (owner_rec bob 11)"

definition full_envelope :: "byte list" where
  "full_envelope = 255 # owner_bytes full_owners @ [42]"

section \<open>The spec's rule for the last entry, and example logs\<close>

text \<open>
  Following the spec's words (4.E, step 3, with the tie rule of the source): the entry of
  the list with maximum timestamp, the later one in the list on ties. An empty list has
  none.
\<close>

definition max_timestamp_entry :: "TransactionEntry list \<Rightarrow> TransactionEntry option" where
  "max_timestamp_entry entries =
     (case filter (\<lambda>e. \<forall>e' \<in> set entries. Timestamp e' \<le> Timestamp e) entries of
        [] \<Rightarrow> None
      | m # ms \<Rightarrow> Some (last (m # ms)))"

definition entry :: "Operation \<Rightarrow> uint64 \<Rightarrow> TransactionEntry" where
  "entry op t = \<lparr>Operation = op, ClientID = alice, Timestamp = t\<rparr>"

definition entity :: "string \<Rightarrow> TransactionEntry list \<Rightarrow> TransactionEntity" where
  "entity path es = \<lparr>entity_ResourceName = path, entity_ResourceID = resource_key, Entries = es\<rparr>"

definition remote_entries :: "TransactionEntry list" where
  "remote_entries = [entry UpdateOperation 5, entry DeleteOperation 7, entry UpdateOperation 7]"

definition prior_entries :: "TransactionEntry list" where
  "prior_entries = [entry UpdateOperation 5]"

definition log_with :: "TransactionEntry list \<Rightarrow> TransactionLog" where
  "log_with es = [''a.txt'' \<mapsto> entity ''a.txt'' es]"

text \<open>
  A fetched log with a second path, the same with no entries at the second path, and a prior
  log with an entity without entries at a path the fetched logs do not have.
\<close>

definition remote_two :: TransactionLog where
  "remote_two = (log_with remote_entries)(''b.txt'' \<mapsto> entity ''b.txt'' [entry UpdateOperation 3])"

definition remote_broken :: TransactionLog where
  "remote_broken = (log_with remote_entries)(''b.txt'' \<mapsto> entity ''b.txt'' [])"

definition prior_with_extra :: TransactionLog where
  "prior_with_extra = (log_with prior_entries)(''z.txt'' \<mapsto> entity ''z.txt'' [])"

text \<open>A walk over two files and a directory, and a walk whose first \<open>Lstat\<close> fails.\<close>

definition visits_example :: "visit list" where
  "visits_example = [(''c.txt'', Some False), (''docs'', Some True), (''a.txt'', Some False)]"

definition visits_unreadable :: "visit list" where
  "visits_unreadable = [(''c.txt'', None), (''a.txt'', Some False)]"

definition hello :: "byte list" where
  "hello = [104, 101, 108, 108, 111]"

definition sha1_const :: "string \<Rightarrow> Identifier" where
  "sha1_const path = resource_key"

section \<open>Basic facts about the embedding\<close>

declare read_data.simps [simp del]

lemma length_id_bytes [simp]: "length (id_bytes i) = 20"
  using id_bytes [of i] by simp

text \<open>The code equations of the identifier type: it is run through its bytes.\<close>

lemma Identifier_abstype [code abstype]: "Abs_Identifier (id_bytes i) = i"
  by (rule id_bytes_inverse)

lemma id_bytes_copy_id [code abstract]:
  "id_bytes (copy_id xs) = take 20 (xs @ replicate 20 0)"
  unfolding copy_id_def by (rule Abs_Identifier_inverse) simp

lemma copy_id_id_bytes [simp]: "copy_id (id_bytes i) = i"
  by (simp add: copy_id_def id_bytes_inverse)

lemma id_bytes_eq_iff: "id_bytes a = id_bytes b \<longleftrightarrow> a = b"
  by (rule id_bytes_inject)

lemma read_data_all: "read_data buf data = Inr (data @ buf)"
proof (induction buf data rule: read_data.induct)
  case (1 buf data)
  show ?case
  proof (cases "buf = []")
    case True
    then show ?thesis by (subst read_data.simps) (simp add: Read_def)
  next
    case False
    then have r: "Read 256 buf = (take 256 buf, None, drop 256 buf)"
      and pos: "0 < length (take 256 buf)"
      by (simp_all add: Read_def)
    from "1.IH"(1) [OF r [symmetric] refl refl pos]
    have "read_data (drop 256 buf) (data @ take 256 buf) = Inr ((data @ take 256 buf) @ drop 256 buf)"
      by simp
    then show ?thesis
      using r pos by (subst read_data.simps) simp
  qed
qed

lemma idSecret_eta [simp]: "\<lparr>pair_ID = pair_ID p, pair_Secret = pair_Secret p\<rparr> = (p :: idSecret)"
  by (cases p) simp

lemma Read_exact:
  "length xs = n \<Longrightarrow> 0 < n \<Longrightarrow> Read n (xs @ rest) = (xs, None, rest)"
  by (auto simp: Read_def)

lemma read_owners_owner_bytes:
  "\<forall>p \<in> set os. length (pair_Secret p) = sessionKeyLen \<Longrightarrow>
   read_owners (length os) (owner_bytes os @ rest) acc = Some (acc @ os, rest)"
proof (induction os arbitrary: acc)
  case Nil
  then show ?case by simp
next
  case (Cons p os)
  have 1: "Read 20 (id_bytes (pair_ID p) @ pair_Secret p @ owner_bytes os @ rest)
      = (id_bytes (pair_ID p), None, pair_Secret p @ owner_bytes os @ rest)"
    by (rule Read_exact) simp_all
  have 2: "Read sessionKeyLen (pair_Secret p @ owner_bytes os @ rest)
      = (pair_Secret p, None, owner_bytes os @ rest)"
    using Cons.prems by (intro Read_exact) (simp_all add: sessionKeyLen_def)
  show ?case
    using Cons.prems Cons.IH [of "acc @ [p]"] by (simp add: 1 2)
qed

lemma read_owners_Some:
  "read_owners n buf acc = Some (os, rest) \<Longrightarrow>
   \<exists>os'. os = acc @ os' \<and> length os' = n \<and> buf = owner_bytes os' @ rest
      \<and> (\<forall>p \<in> set os'. length (pair_Secret p) = sessionKeyLen)"
proof (induction n arbitrary: buf acc)
  case 0
  then show ?case by simp
next
  case (Suc n)
  let ?p = "\<lparr>pair_ID = copy_id (take 20 buf), pair_Secret = take sessionKeyLen (drop 20 buf)\<rparr>"
  from Suc.prems have l1: "length (take 20 buf) = 20"
    and l2: "length (take sessionKeyLen (drop 20 buf)) = sessionKeyLen"
    and rec: "read_owners n (drop sessionKeyLen (drop 20 buf)) (acc @ [?p]) = Some (os, rest)"
    by (auto simp: Read_def sessionKeyLen_def split: if_splits)
  from Suc.IH [OF rec] obtain os' where os': "os = (acc @ [?p]) @ os'" "length os' = n"
    "drop sessionKeyLen (drop 20 buf) = owner_bytes os' @ rest"
    "\<forall>p \<in> set os'. length (pair_Secret p) = sessionKeyLen"
    by blast
  have idb: "id_bytes (copy_id (take 20 buf)) = take 20 buf"
    using l1 by (simp add: id_bytes_copy_id)
  have "buf = take 20 buf @ take sessionKeyLen (drop 20 buf) @ drop sessionKeyLen (drop 20 buf)"
    unfolding append_take_drop_id ..
  then have "buf = owner_bytes (?p # os') @ rest"
    using os'(3) idb by simp
  with os' l2 show ?case
    by (intro exI [of _ "?p # os'"]) simp
qed


lemma check_owner_result:
  "check_owner f os st =
     (if \<exists>p \<in> set os. pair_ID p = f
      then (True, pair_Secret (last (filter (\<lambda>p. pair_ID p = f) os)))
      else st)"
  by (induction os arbitrary: st) (auto simp: id_bytes_inject filter_empty_conv)

lemma Get_blob: "blobs s k = Some b \<Longrightarrow> Get s k = Inr b"
  by (simp add: Get_def)

lemma Read_one: "Read (Suc 0) (c # rest) = ([c], None, rest)"
  by (simp add: Read_def)

lemma Read_one_Nil: "Read (Suc 0) [] = ([], Some EOF, [])"
  by (simp add: Read_def)

lemma GetFileHandler_parsed:
  assumes "blobs s (Key (req_Header r)) = Some (c # rest)"
    and "read_owners (unat c) rest [] = Some (os, data)"
  shows "GetFileHandler s r =
     (if \<exists>p \<in> set os. pair_ID p = From (req_Header r)
      then (\<lparr>resp_Status = Success,
             resp_Header = zero_Header\<lparr>Secret :=
               pair_Secret (last (filter (\<lambda>p. pair_ID p = From (req_Header r)) os))\<rparr>,
             resp_Data = data\<rparr>, s)
      else (error_Response, s))"
  using assms
  by (simp add: GetFileHandler_def Get_blob Read_one check_owner_result read_data_all Let_def)

lemma PostFileHandler_parsed:
  assumes "blobs s (Key (req_Header r)) = Some (c # rest)"
    and "read_owners (unat c) rest [] = Some (os, data)"
  shows "PostFileHandler s r =
     (let timestamp = IncrementClock (clock s) (Clock (req_Header r)) in
      if (\<exists>p \<in> set os. pair_ID p = From (req_Header r)) \<and> disk_ok s
      then (\<lparr>resp_Status = Success,
             resp_Header = zero_Header\<lparr>Clock := timestamp, Secret :=
               pair_Secret (last (filter (\<lambda>p. pair_ID p = From (req_Header r)) os))\<rparr>,
             resp_Data = []\<rparr>,
            s\<lparr>clock := timestamp,
              blobs := (blobs s)(Key (req_Header r) \<mapsto>
                of_nat (length os + length (SharedWith (req_Header r))) # owner_bytes os
                  @ shared_bytes (SharedWith (req_Header r)) @ req_Data r)\<rparr>)
      else (error_Response, s\<lparr>clock := timestamp\<rparr>))"
  using assms
  by (simp add: PostFileHandler_def Get_blob Read_one check_owner_result Post_def Let_def)

lemma PostFileHandler_absent:
  assumes "blobs s (Key (req_Header r)) = None"
  shows "PostFileHandler s r =
     (let timestamp = IncrementClock (clock s) (Clock (req_Header r)) in
      if disk_ok s
      then (\<lparr>resp_Status = Success, resp_Header = zero_Header\<lparr>Clock := timestamp\<rparr>,
             resp_Data = []\<rparr>,
            s\<lparr>clock := timestamp,
              blobs := (blobs s)(Key (req_Header r) \<mapsto>
                of_nat (1 + length (SharedWith (req_Header r))) # id_bytes (From (req_Header r))
                  @ Secret (req_Header r) @ shared_bytes (SharedWith (req_Header r)) @ req_Data r)\<rparr>)
      else (error_Response, s\<lparr>clock := timestamp\<rparr>))"
  using assms
  by (simp add: PostFileHandler_def Get_def Post_def Let_def)

lemma PostFileHandler_unparsed:
  assumes "blobs s (Key (req_Header r)) = Some b"
    and "\<nexists>c rest os data. b = c # rest \<and> read_owners (unat c) rest [] = Some (os, data)"
  shows "PostFileHandler s r =
     (error_Response, s\<lparr>clock := IncrementClock (clock s) (Clock (req_Header r))\<rparr>)"
proof (cases b)
  case Nil
  with assms(1) show ?thesis
    by (simp add: PostFileHandler_def Get_blob Read_one_Nil Let_def)
next
  case (Cons c rest)
  with assms(2) have "read_owners (unat c) rest [] = None"
    by (cases "read_owners (unat c) rest []") auto
  with assms(1) Cons show ?thesis
    by (simp add: PostFileHandler_def Get_blob Read_one Let_def)
qed

section \<open>Facts about the example inputs\<close>

lemma id_bytes_example: "id_bytes (copy_id (replicate 20 b)) = replicate 20 b"
  by (simp add: id_bytes_copy_id)

lemma alice_neq_bob: "alice \<noteq> bob"
proof
  assume "alice = bob"
  then have "id_bytes alice = id_bytes bob" by simp
  then show False by (simp add: alice_def bob_def id_bytes_example)
qed

lemma blobs_server_with: "blobs (server_with b) (Key (req_Header (request_from i sw))) = Some b"
  by (simp add: server_with_def request_from_def)

lemma From_request_from: "From (req_Header (request_from i sw)) = i"
  by (simp add: request_from_def)

lemma read_owners_envelope:
  "\<forall>p \<in> set os. length (pair_Secret p) = sessionKeyLen \<Longrightarrow> n = length os \<Longrightarrow>
   read_owners n (owner_bytes os @ rest) [] = Some (os, rest)"
  using read_owners_owner_bytes [of os rest "[]"] by simp

lemma parse_single:
  "read_owners (unat (1 :: byte)) (owner_bytes [owner_rec alice 10] @ [42]) []
     = Some ([owner_rec alice 10], [42])"
  by (rule read_owners_envelope) (simp_all add: owner_rec_def sessionKeyLen_def)

lemma parse_dup:
  "read_owners (unat (2 :: byte)) (owner_bytes [owner_rec alice 10, owner_rec alice 11] @ [42]) []
     = Some ([owner_rec alice 10, owner_rec alice 11], [42])"
  by (rule read_owners_envelope) (simp_all add: owner_rec_def sessionKeyLen_def)

lemma parse_full:
  "read_owners (unat (255 :: byte)) (owner_bytes full_owners @ [42]) [] = Some (full_owners, [42])"
  by (rule read_owners_envelope) (simp_all add: full_owners_def owner_rec_def sessionKeyLen_def)

section \<open>The claims about the server handlers\<close>

text \<open>
  C4, as stated: the authorization scan yields the wrapped key of the first record whose id
  equals the requester's. It fails on \<open>dup_envelope\<close>, whose two records both carry
  \<open>alice\<close>'s id: \<open>GetFileHandler\<close> answers with the secret of the second record.
\<close>

theorem GetFile_first_match_counterexample:
  "resp_Status (fst (GetFileHandler (server_with dup_envelope) (request_from alice []))) = Success
   \<and> Secret (resp_Header (fst (GetFileHandler (server_with dup_envelope) (request_from alice []))))
       = pair_Secret (owner_rec alice 11)
   \<and> Secret (resp_Header (fst (GetFileHandler (server_with dup_envelope) (request_from alice []))))
       \<noteq> pair_Secret (owner_rec alice 10)"
proof -
  have b: "blobs (server_with dup_envelope) (Key (req_Header (request_from alice [])))
      = Some (2 # owner_bytes [owner_rec alice 10, owner_rec alice 11] @ [42])"
    by (simp add: blobs_server_with dup_envelope_def)
  show ?thesis
    using GetFileHandler_parsed [OF b parse_dup]
    by (simp add: From_request_from owner_rec_def)
qed

text \<open>
  C4, amended: for every envelope that the handler parses into an owner table with at least
  one record whose id equals the requester's \<open>From\<close>, the scan yields the wrapped key of the
  last such record, and \<open>GetFileHandler\<close> answers \<open>Success\<close> with that key as the header's
  secret and the rest of the blob as data.
\<close>

theorem GetFile_yields_last_match:
  assumes "blobs s (Key (req_Header r)) = Some (c # rest)"
    and "read_owners (unat c) rest [] = Some (os, data)"
    and "\<exists>p \<in> set os. pair_ID p = From (req_Header r)"
  shows "check_owner (From (req_Header r)) os (False, [])
           = (True, pair_Secret (last (filter (\<lambda>p. pair_ID p = From (req_Header r)) os)))
       \<and> GetFileHandler s r =
           (\<lparr>resp_Status = Success,
             resp_Header = zero_Header\<lparr>Secret :=
               pair_Secret (last (filter (\<lambda>p. pair_ID p = From (req_Header r)) os))\<rparr>,
             resp_Data = data\<rparr>, s)"
  using assms(3) GetFileHandler_parsed [OF assms(1,2)] by (simp add: check_owner_result)

theorem GetFile_yields_last_match_witness:
  "GetFileHandler (server_with dup_envelope) (request_from alice []) =
     (\<lparr>resp_Status = Success,
       resp_Header = zero_Header\<lparr>Secret := replicate 256 11\<rparr>,
       resp_Data = [42]\<rparr>, server_with dup_envelope)"
proof -
  have b: "blobs (server_with dup_envelope) (Key (req_Header (request_from alice [])))
      = Some (2 # owner_bytes [owner_rec alice 10, owner_rec alice 11] @ [42])"
    by (simp add: blobs_server_with dup_envelope_def)
  have m: "\<exists>p \<in> set [owner_rec alice 10, owner_rec alice 11].
      pair_ID p = From (req_Header (request_from alice []))"
    by (simp add: From_request_from owner_rec_def)
  show ?thesis
    using GetFile_yields_last_match [OF b parse_dup m]
    by (simp add: From_request_from owner_rec_def)
qed

text \<open>
  C6: for every PostFile request on an existing envelope that the handler parses (a
  well-formed envelope) and whose owner table holds no record with the requester's \<open>From\<close>,
  the handler replies \<open>Error\<close> and the block store is unchanged: no write occurs.
\<close>

theorem PostFile_non_owner_rejected:
  assumes "blobs s (Key (req_Header r)) = Some (c # rest)"
    and "read_owners (unat c) rest [] = Some (os, data)"
    and "\<forall>p \<in> set os. pair_ID p \<noteq> From (req_Header r)"
  shows "fst (PostFileHandler s r) = error_Response
       \<and> resp_Status (fst (PostFileHandler s r)) = Error
       \<and> blobs (snd (PostFileHandler s r)) = blobs s"
  using assms(3) PostFileHandler_parsed [OF assms(1,2)]
  by (auto simp: Let_def error_Response_def)

theorem PostFile_non_owner_rejected_witness:
  "resp_Status (fst (PostFileHandler (server_with single_envelope) (request_from bob []))) = Error
   \<and> blobs (snd (PostFileHandler (server_with single_envelope) (request_from bob [])))
       = blobs (server_with single_envelope)"
proof -
  have b: "blobs (server_with single_envelope) (Key (req_Header (request_from bob [])))
      = Some (1 # owner_bytes [owner_rec alice 10] @ [42])"
    by (simp add: blobs_server_with single_envelope_def)
  have n: "\<forall>p \<in> set [owner_rec alice 10]. pair_ID p \<noteq> From (req_Header (request_from bob []))"
    using alice_neq_bob by (simp add: From_request_from owner_rec_def)
  show ?thesis
    using PostFile_non_owner_rejected [OF b parse_single n] by blast
qed

text \<open>
  C8: for every stored envelope whose owner-count byte is 0, the owner-table loop of
  \<open>GetFileHandler\<close> succeeds with an empty table, and the handler replies \<open>Error\<close> whatever
  the request, so whoever the requester is.
\<close>

theorem GetFile_zero_owners:
  assumes "blobs s (Key (req_Header r)) = Some (0 # rest)"
  shows "read_owners (unat (0 :: byte)) rest [] = Some ([], rest)
       \<and> GetFileHandler s r = (error_Response, s)
       \<and> resp_Status (fst (GetFileHandler s r)) = Error"
proof -
  have p: "read_owners (unat (0 :: byte)) rest [] = Some ([], rest)"
    by simp
  from GetFileHandler_parsed [OF assms p] show ?thesis
    by (simp add: error_Response_def)
qed

theorem GetFile_zero_owners_witness:
  "GetFileHandler (server_with [0, 42]) (request_from alice []) = (error_Response, server_with [0, 42])
   \<and> GetFileHandler (server_with [0, 42]) (request_from bob []) = (error_Response, server_with [0, 42])"
  using GetFile_zero_owners [OF blobs_server_with [of "[0, 42]" alice "[]"]]
    GetFile_zero_owners [OF blobs_server_with [of "[0, 42]" bob "[]"]]
  by simp

lemma PostFileHandler_Success_parsed:
  assumes "blobs s (Key (req_Header r)) = Some b"
    and "resp_Status (fst (PostFileHandler s r)) = Success"
  shows "\<exists>c rest os data. b = c # rest \<and> read_owners (unat c) rest [] = Some (os, data)"
proof (rule ccontr)
  assume "\<not> ?thesis"
  from PostFileHandler_unparsed [OF assms(1) this] assms(2) show False
    by (simp add: error_Response_def)
qed

text \<open>
  C10: for every PostFile over an existing envelope that is answered with \<open>Success\<close>, the
  envelope parsed into an owner table that holds the requester's id, and the secret in the
  response header is the wrapped key of the last record of that table with the requester's
  id: the posting owner gets its own stored wrapped key back.
\<close>

theorem PostFile_returns_stored_secret:
  assumes "blobs s (Key (req_Header r)) = Some b"
    and "resp_Status (fst (PostFileHandler s r)) = Success"
  shows "\<exists>c rest os data. b = c # rest \<and> read_owners (unat c) rest [] = Some (os, data)
       \<and> (\<exists>p \<in> set os. pair_ID p = From (req_Header r))
       \<and> Secret (resp_Header (fst (PostFileHandler s r)))
           = pair_Secret (last (filter (\<lambda>p. pair_ID p = From (req_Header r)) os))"
proof -
  from PostFileHandler_Success_parsed [OF assms] obtain c rest os data
    where b: "b = c # rest" and p: "read_owners (unat c) rest [] = Some (os, data)"
    by blast
  from assms(1) b have "blobs s (Key (req_Header r)) = Some (c # rest)" by simp
  from PostFileHandler_parsed [OF this p] assms(2)
  have "(\<exists>p \<in> set os. pair_ID p = From (req_Header r))
      \<and> Secret (resp_Header (fst (PostFileHandler s r)))
           = pair_Secret (last (filter (\<lambda>p. pair_ID p = From (req_Header r)) os))"
    by (auto simp: Let_def error_Response_def split: if_splits)
  with b p show ?thesis by blast
qed

lemma PostFile_dup_example:
  "PostFileHandler (server_with dup_envelope) (request_from alice []) =
     (\<lparr>resp_Status = Success,
       resp_Header = zero_Header\<lparr>Clock := 8, Secret := replicate 256 11\<rparr>,
       resp_Data = []\<rparr>,
      (server_with dup_envelope)\<lparr>clock := 8,
         blobs := (blobs (server_with dup_envelope))(resource_key \<mapsto>
           2 # owner_bytes [owner_rec alice 10, owner_rec alice 11] @ [1, 2, 3])\<rparr>)"
proof -
  have b: "blobs (server_with dup_envelope) (Key (req_Header (request_from alice [])))
      = Some (2 # owner_bytes [owner_rec alice 10, owner_rec alice 11] @ [42])"
    by (simp add: blobs_server_with dup_envelope_def)
  show ?thesis
    using PostFileHandler_parsed [OF b parse_dup]
    by (simp add: From_request_from owner_rec_def Let_def)
      (simp add: request_from_def server_with_def IncrementClock_def)
qed

theorem PostFile_returns_stored_secret_witness:
  "resp_Status (fst (PostFileHandler (server_with dup_envelope) (request_from alice []))) = Success
   \<and> Secret (resp_Header (fst (PostFileHandler (server_with dup_envelope) (request_from alice []))))
       = replicate 256 11
   \<and> (\<exists>c rest os data. dup_envelope = c # rest \<and> read_owners (unat c) rest [] = Some (os, data)
       \<and> (\<exists>p \<in> set os. pair_ID p = From (req_Header (request_from alice [])))
       \<and> Secret (resp_Header (fst (PostFileHandler (server_with dup_envelope) (request_from alice []))))
           = pair_Secret (last (filter (\<lambda>p. pair_ID p = From (req_Header (request_from alice []))) os)))"
proof -
  have s: "resp_Status (fst (PostFileHandler (server_with dup_envelope) (request_from alice []))) = Success"
    by (simp add: PostFile_dup_example)
  have k: "Secret (resp_Header (fst (PostFileHandler (server_with dup_envelope) (request_from alice []))))
       = replicate 256 11"
    by (simp add: PostFile_dup_example)
  from PostFile_returns_stored_secret [OF blobs_server_with s] s k show ?thesis
    by blast
qed

lemma blobs_empty_server: "blobs empty_server k = None"
  by (simp add: empty_server_def)

text \<open>
  C5, as stated: every PostFile request on a key with no envelope stores an envelope whose
  owner-count byte equals 1 + |shared_with|. With 255 shared records the count is 256 and
  the byte written is 0; and when the block store refuses the write, the handler replies
  \<open>Error\<close> and nothing is stored.
\<close>

theorem PostFile_create_counterexample:
  "resp_Status (fst (PostFileHandler empty_server
       (request_from alice (replicate 255 (share_rec bob 11))))) = Success
   \<and> blobs (snd (PostFileHandler empty_server
       (request_from alice (replicate 255 (share_rec bob 11))))) resource_key
       = Some (0 # id_bytes alice @ replicate 256 12
           @ shared_bytes (replicate 255 (share_rec bob 11)) @ [1, 2, 3])
   \<and> 1 + length (replicate 255 (share_rec bob 11)) = 256
   \<and> resp_Status (fst (PostFileHandler (empty_server\<lparr>disk_ok := False\<rparr>)
       (request_from alice []))) = Error
   \<and> blobs (snd (PostFileHandler (empty_server\<lparr>disk_ok := False\<rparr>)
       (request_from alice []))) resource_key = None"
proof -
  have 1: "blobs empty_server
      (Key (req_Header (request_from alice (replicate 255 (share_rec bob 11))))) = None"
    by (rule blobs_empty_server)
  have 2: "blobs (empty_server\<lparr>disk_ok := False\<rparr>) (Key (req_Header (request_from alice []))) = None"
    by (simp add: empty_server_def)
  show ?thesis
    using PostFileHandler_absent [OF 1] PostFileHandler_absent [OF 2]
    by (simp add: Let_def error_Response_def) (simp add: request_from_def empty_server_def)
qed

text \<open>
  C5, amended: for every PostFile request on a key with no existing envelope and with at
  most 254 shared records, when the write to the block store succeeds the handler replies
  \<open>Success\<close> and stores, under the key and nowhere else, exactly: one owner-count byte of
  value 1 + |shared_with|, then the owner table made of the requester's id and secret
  followed by the shared records in order, then the request data.
\<close>

theorem PostFile_creates_envelope:
  assumes "blobs s (Key (req_Header r)) = None"
    and "disk_ok s"
    and "length (SharedWith (req_Header r)) \<le> 254"
  shows "resp_Status (fst (PostFileHandler s r)) = Success
       \<and> (\<exists>owner_count.
            unat owner_count = 1 + length (SharedWith (req_Header r))
          \<and> blobs (snd (PostFileHandler s r)) = (blobs s)(Key (req_Header r) \<mapsto>
               owner_count # (id_bytes (From (req_Header r)) @ Secret (req_Header r)
                 @ shared_bytes (SharedWith (req_Header r))) @ req_Data r))"
proof -
  let ?c = "of_nat (1 + length (SharedWith (req_Header r))) :: byte"
  have "unat ?c = (1 + length (SharedWith (req_Header r))) mod 2 ^ LENGTH(8)"
    by (rule unat_of_nat)
  with assms(3) have "unat ?c = 1 + length (SharedWith (req_Header r))"
    by simp
  with PostFileHandler_absent [OF assms(1)] assms(2) show ?thesis
    by (intro conjI exI [of _ ?c]) (simp_all add: Let_def)
qed

theorem PostFile_creates_envelope_witness:
  "blobs empty_server (Key (req_Header (request_from alice [share_rec bob 11]))) = None
   \<and> disk_ok empty_server
   \<and> length (SharedWith (req_Header (request_from alice [share_rec bob 11]))) = 1
   \<and> resp_Status (fst (PostFileHandler empty_server (request_from alice [share_rec bob 11]))) = Success
   \<and> (\<exists>owner_count.
        unat owner_count = 1 + length (SharedWith (req_Header (request_from alice [share_rec bob 11])))
      \<and> blobs (snd (PostFileHandler empty_server (request_from alice [share_rec bob 11])))
          = (blobs empty_server)(Key (req_Header (request_from alice [share_rec bob 11])) \<mapsto>
              owner_count # (id_bytes (From (req_Header (request_from alice [share_rec bob 11])))
                @ Secret (req_Header (request_from alice [share_rec bob 11]))
                @ shared_bytes (SharedWith (req_Header (request_from alice [share_rec bob 11]))))
                @ req_Data (request_from alice [share_rec bob 11])))"
proof -
  have 1: "blobs empty_server (Key (req_Header (request_from alice [share_rec bob 11]))) = None"
    by (rule blobs_empty_server)
  have 2: "disk_ok empty_server"
    by (simp add: empty_server_def)
  have 3: "length (SharedWith (req_Header (request_from alice [share_rec bob 11]))) = 1"
    by (simp add: request_from_def)
  then have 4: "length (SharedWith (req_Header (request_from alice [share_rec bob 11]))) \<le> 254"
    by simp
  show ?thesis
    using PostFile_creates_envelope [OF 1 2 4] 1 2 3 by blast
qed

text \<open>
  C7 at a failing input: \<open>full_envelope\<close> holds 255 owner records, \<open>alice\<close> among them, and
  \<open>alice\<close> posts with one more shared record. The handler replies \<open>Success\<close> and stores 256
  owner records behind an owner-count byte of 0.
\<close>

theorem PostFile_update_owner_count_wraps:
  "resp_Status (fst (PostFileHandler (server_with full_envelope)
       (request_from alice [share_rec bob 11]))) = Success
   \<and> blobs (snd (PostFileHandler (server_with full_envelope)
       (request_from alice [share_rec bob 11]))) resource_key
       = Some (0 # owner_bytes full_owners @ shared_bytes [share_rec bob 11] @ [1, 2, 3])
   \<and> length full_owners + length [share_rec bob 11] = 256"
proof -
  have b: "blobs (server_with full_envelope)
      (Key (req_Header (request_from alice [share_rec bob 11])))
      = Some (255 # owner_bytes full_owners @ [42])"
    by (simp add: blobs_server_with full_envelope_def)
  have m: "\<exists>p \<in> set full_owners. pair_ID p = From (req_Header (request_from alice [share_rec bob 11]))"
    by (simp add: From_request_from full_owners_def owner_rec_def)
  have l: "length full_owners = 255"
    by (simp add: full_owners_def)
  have d: "disk_ok (server_with full_envelope)"
    by (simp add: server_with_def)
  show ?thesis
    using PostFileHandler_parsed [OF b parse_full] m l d
    by (simp add: Let_def) (simp add: request_from_def)
qed

lemma DeleteFileHandler_parsed:
  assumes "blobs s (Key (req_Header r)) = Some (c # rest)"
    and "read_owners (unat c) rest [] = Some (os, data)"
  shows "DeleteFileHandler s r =
     (let timestamp = IncrementClock (clock s) (Clock (req_Header r)) in
      if (\<exists>p \<in> set os. pair_ID p = From (req_Header r)) \<and> disk_ok s
      then (\<lparr>resp_Status = Success,
             resp_Header = zero_Header\<lparr>Clock := timestamp, Secret :=
               pair_Secret (last (filter (\<lambda>p. pair_ID p = From (req_Header r)) os))\<rparr>,
             resp_Data = []\<rparr>,
            s\<lparr>clock := timestamp, blobs := (blobs s)(Key (req_Header r) := None)\<rparr>)
      else (error_Response, s\<lparr>clock := timestamp\<rparr>))"
  using assms
  by (simp add: DeleteFileHandler_def Get_blob Read_one check_owner_result Delete_def Let_def)

lemma GetPublicKeyHandler_result:
  "GetPublicKeyHandler s r =
     (let timestamp = IncrementClock (clock s) (Clock (req_Header r)) in
      case blobs s (Key (req_Header r)) of
        None \<Rightarrow> (error_Response, s\<lparr>clock := timestamp\<rparr>)
      | Some b \<Rightarrow> (\<lparr>resp_Status = Success, resp_Header = zero_Header\<lparr>Clock := timestamp\<rparr>,
                    resp_Data = b\<rparr>, s\<lparr>clock := timestamp\<rparr>))"
  by (simp add: GetPublicKeyHandler_def Get_def read_data_all Let_def split: option.splits)

lemma PostPublicKeyHandler_result:
  "PostPublicKeyHandler s r =
     (let timestamp = IncrementClock (clock s) (Clock (req_Header r)) in
      if disk_ok s
      then (\<lparr>resp_Status = Success, resp_Header = zero_Header\<lparr>Clock := timestamp\<rparr>,
             resp_Data = []\<rparr>,
            s\<lparr>clock := timestamp, blobs := (blobs s)(Key (req_Header r) \<mapsto> req_Data r)\<rparr>)
      else (error_Response, s\<lparr>clock := timestamp\<rparr>))"
  by (simp add: PostPublicKeyHandler_def Post_def Let_def)

lemma PostFileHandler_Success_clock:
  assumes "resp_Status (fst (PostFileHandler s r)) = Success"
  shows "Clock (resp_Header (fst (PostFileHandler s r))) = IncrementClock (clock s) (Clock (req_Header r))
       \<and> clock (snd (PostFileHandler s r)) = IncrementClock (clock s) (Clock (req_Header r))"
proof (cases "blobs s (Key (req_Header r))")
  case None
  from PostFileHandler_absent [OF None] assms show ?thesis
    by (auto simp: Let_def error_Response_def split: if_splits)
next
  case (Some b)
  from PostFileHandler_Success_parsed [OF Some assms] obtain c rest os data
    where b: "b = c # rest" and p: "read_owners (unat c) rest [] = Some (os, data)"
    by blast
  from Some b have "blobs s (Key (req_Header r)) = Some (c # rest)" by simp
  from PostFileHandler_parsed [OF this p] assms show ?thesis
    by (auto simp: Let_def error_Response_def split: if_splits)
qed

lemma DeleteFileHandler_Success_clock:
  assumes "resp_Status (fst (DeleteFileHandler s r)) = Success"
  shows "Clock (resp_Header (fst (DeleteFileHandler s r)))
           = IncrementClock (clock s) (Clock (req_Header r))
       \<and> clock (snd (DeleteFileHandler s r)) = IncrementClock (clock s) (Clock (req_Header r))"
  using assms
  by (auto simp: DeleteFileHandler_def Let_def error_Response_def Delete_def
      split: sum.splits prod.splits if_splits option.splits)

lemma GetPublicKeyHandler_Success_clock:
  assumes "resp_Status (fst (GetPublicKeyHandler s r)) = Success"
  shows "Clock (resp_Header (fst (GetPublicKeyHandler s r)))
           = IncrementClock (clock s) (Clock (req_Header r))
       \<and> clock (snd (GetPublicKeyHandler s r)) = IncrementClock (clock s) (Clock (req_Header r))"
  using assms
  by (auto simp: GetPublicKeyHandler_result Let_def error_Response_def split: option.splits)

lemma PostPublicKeyHandler_Success_clock:
  assumes "resp_Status (fst (PostPublicKeyHandler s r)) = Success"
  shows "Clock (resp_Header (fst (PostPublicKeyHandler s r)))
           = IncrementClock (clock s) (Clock (req_Header r))
       \<and> clock (snd (PostPublicKeyHandler s r)) = IncrementClock (clock s) (Clock (req_Header r))"
  using assms
  by (auto simp: PostPublicKeyHandler_result Let_def error_Response_def split: if_splits)

lemma PostFileHandler_clock:
  "clock (snd (PostFileHandler s r)) = IncrementClock (clock s) (Clock (req_Header r))"
proof (cases "blobs s (Key (req_Header r))")
  case None
  from PostFileHandler_absent [OF None] show ?thesis
    by (simp add: Let_def)
next
  case (Some b)
  show ?thesis
  proof (cases "\<exists>c rest os data. b = c # rest \<and> read_owners (unat c) rest [] = Some (os, data)")
    case True
    then obtain c rest os data
      where b: "b = c # rest" and p: "read_owners (unat c) rest [] = Some (os, data)"
      by blast
    from Some b have "blobs s (Key (req_Header r)) = Some (c # rest)" by simp
    from PostFileHandler_parsed [OF this p] show ?thesis
      by (simp add: Let_def)
  next
    case False
    from PostFileHandler_unparsed [OF Some False] show ?thesis
      by simp
  qed
qed

lemma GetPublicKeyHandler_clock:
  "clock (snd (GetPublicKeyHandler s r)) = IncrementClock (clock s) (Clock (req_Header r))"
  by (simp add: GetPublicKeyHandler_result Let_def split: option.splits)

lemma PostPublicKeyHandler_clock:
  "clock (snd (PostPublicKeyHandler s r)) = IncrementClock (clock s) (Clock (req_Header r))"
  by (simp add: PostPublicKeyHandler_result Let_def)

lemma DeleteFileHandler_unparsed:
  assumes "\<nexists>c rest os data. blobs s (Key (req_Header r)) = Some (c # rest)
      \<and> read_owners (unat c) rest [] = Some (os, data)"
  shows "DeleteFileHandler s r = (error_Response, s)"
proof (cases "blobs s (Key (req_Header r))")
  case None
  then show ?thesis by (simp add: DeleteFileHandler_def Get_def)
next
  case (Some b)
  show ?thesis
  proof (cases b)
    case Nil
    with Some show ?thesis
      by (simp add: DeleteFileHandler_def Get_blob Read_one_Nil)
  next
    case (Cons c rest)
    with assms Some have "read_owners (unat c) rest [] = None"
      by (cases "read_owners (unat c) rest []") auto
    with Some Cons show ?thesis
      by (simp add: DeleteFileHandler_def Get_blob Read_one)
  qed
qed

lemma DeleteFileHandler_clock_parsed:
  assumes "blobs s (Key (req_Header r)) = Some (c # rest)"
    and "read_owners (unat c) rest [] = Some (os, data)"
  shows "clock (snd (DeleteFileHandler s r)) = IncrementClock (clock s) (Clock (req_Header r))"
  using DeleteFileHandler_parsed [OF assms] by (simp add: Let_def)

text \<open>
  \<open>GetFileHandler\<close> alone never calls \<open>IncrementClock\<close>: whatever the request, the server
  clock stays as it was and the reply carries clock 0. Its four siblings make the call, and
  the client's \<open>GetFile\<close> (part_000, line 760) passes \<open>resp.Header.Clock\<close> of this very reply
  to \<open>IncrementClock\<close>: the missing call is a slip of \<open>GetFileHandler\<close>.
\<close>

lemma GetFileHandler_leaves_clock:
  "clock (snd (GetFileHandler s r)) = clock s \<and> Clock (resp_Header (fst (GetFileHandler s r))) = 0"
proof -
  have "snd (GetFileHandler s r) = s \<and> Clock (resp_Header (fst (GetFileHandler s r))) = 0"
    by (simp add: GetFileHandler_def Let_def error_Response_def zero_Header_def
        split: sum.splits prod.splits option.splits)
  then show ?thesis by simp
qed

text \<open>
  C3, as stated: every handler updates the Lamport clock and its response header carries
  \<open>max(server_clock, request.clock) + 1\<close>, which is 8 for the three requests below.
  \<open>GetFileHandler\<close> answers \<open>Success\<close> with clock 0 and leaves the server clock at 5.
  \<open>PostFileHandler\<close>, refusing \<open>bob\<close>, moves the server clock to 8 but its \<open>Error\<close> reply,
  built afresh, carries clock 0. \<open>DeleteFileHandler\<close> on a key without a blob replies
  \<open>Error\<close> with clock 0 and leaves the server clock at 5.
\<close>

theorem handlers_clock_counterexample:
  "resp_Status (fst (GetFileHandler (server_with single_envelope) (request_from alice []))) = Success
   \<and> Clock (resp_Header (fst (GetFileHandler (server_with single_envelope) (request_from alice [])))) = 0
   \<and> clock (snd (GetFileHandler (server_with single_envelope) (request_from alice []))) = 5
   \<and> resp_Status (fst (PostFileHandler (server_with single_envelope) (request_from bob []))) = Error
   \<and> Clock (resp_Header (fst (PostFileHandler (server_with single_envelope) (request_from bob [])))) = 0
   \<and> clock (snd (PostFileHandler (server_with single_envelope) (request_from bob []))) = 8
   \<and> resp_Status (fst (DeleteFileHandler empty_server (request_from alice []))) = Error
   \<and> Clock (resp_Header (fst (DeleteFileHandler empty_server (request_from alice [])))) = 0
   \<and> clock (snd (DeleteFileHandler empty_server (request_from alice []))) = 5
   \<and> max (clock (server_with single_envelope)) (Clock (req_Header (request_from alice []))) + 1 = 8
   \<and> max (clock (server_with single_envelope)) (Clock (req_Header (request_from bob []))) + 1 = 8
   \<and> max (clock empty_server) (Clock (req_Header (request_from alice []))) + 1 = 8"
proof -
  have a: "blobs (server_with single_envelope) (Key (req_Header (request_from alice [])))
      = Some (1 # owner_bytes [owner_rec alice 10] @ [42])"
    by (simp add: blobs_server_with single_envelope_def)
  have b: "blobs (server_with single_envelope) (Key (req_Header (request_from bob [])))
      = Some (1 # owner_bytes [owner_rec alice 10] @ [42])"
    by (simp add: blobs_server_with single_envelope_def)
  have g: "GetFileHandler (server_with single_envelope) (request_from alice []) =
      (\<lparr>resp_Status = Success, resp_Header = zero_Header\<lparr>Secret := replicate 256 10\<rparr>,
        resp_Data = [42]\<rparr>, server_with single_envelope)"
    using GetFileHandler_parsed [OF a parse_single]
    by (simp add: From_request_from owner_rec_def)
  have p: "PostFileHandler (server_with single_envelope) (request_from bob []) =
      (error_Response, (server_with single_envelope)\<lparr>clock :=
         IncrementClock (clock (server_with single_envelope)) (Clock (req_Header (request_from bob [])))\<rparr>)"
    using PostFileHandler_parsed [OF b parse_single] alice_neq_bob
    by (simp add: From_request_from owner_rec_def Let_def)
  have d: "DeleteFileHandler empty_server (request_from alice []) = (error_Response, empty_server)"
    by (rule DeleteFileHandler_unparsed) (simp add: blobs_empty_server)
  show ?thesis
    by (simp add: g p d)
      (simp add: zero_Header_def error_Response_def server_with_def empty_server_def
        request_from_def IncrementClock_def)
qed

text \<open>
  C3, amended: \<open>PostFileHandler\<close>, \<open>GetPublicKeyHandler\<close> and \<open>PostPublicKeyHandler\<close> set
  the server clock to \<open>max(server_clock, request.clock) + 1\<close> (in 64 bits) on every request,
  whatever the reply; \<open>DeleteFileHandler\<close> does so on every request for which it has read
  the owner table of the stored envelope, and leaves the clock as it was otherwise; and
  every \<open>Success\<close> response of these four handlers carries that value in its header.
\<close>

theorem handlers_update_clock:
  "clock (snd (PostFileHandler s r)) = max (clock s) (Clock (req_Header r)) + 1
   \<and> clock (snd (GetPublicKeyHandler s r)) = max (clock s) (Clock (req_Header r)) + 1
   \<and> clock (snd (PostPublicKeyHandler s r)) = max (clock s) (Clock (req_Header r)) + 1
   \<and> ((\<exists>c rest os data. blobs s (Key (req_Header r)) = Some (c # rest)
          \<and> read_owners (unat c) rest [] = Some (os, data)) \<longrightarrow>
        clock (snd (DeleteFileHandler s r)) = max (clock s) (Clock (req_Header r)) + 1)
   \<and> (\<not> (\<exists>c rest os data. blobs s (Key (req_Header r)) = Some (c # rest)
          \<and> read_owners (unat c) rest [] = Some (os, data)) \<longrightarrow>
        clock (snd (DeleteFileHandler s r)) = clock s)
   \<and> (resp_Status (fst (PostFileHandler s r)) = Success \<longrightarrow>
        Clock (resp_Header (fst (PostFileHandler s r))) = max (clock s) (Clock (req_Header r)) + 1)
   \<and> (resp_Status (fst (DeleteFileHandler s r)) = Success \<longrightarrow>
        Clock (resp_Header (fst (DeleteFileHandler s r))) = max (clock s) (Clock (req_Header r)) + 1)
   \<and> (resp_Status (fst (GetPublicKeyHandler s r)) = Success \<longrightarrow>
        Clock (resp_Header (fst (GetPublicKeyHandler s r))) = max (clock s) (Clock (req_Header r)) + 1)
   \<and> (resp_Status (fst (PostPublicKeyHandler s r)) = Success \<longrightarrow>
        Clock (resp_Header (fst (PostPublicKeyHandler s r))) = max (clock s) (Clock (req_Header r)) + 1)"
proof -
  have del1: "(\<exists>c rest os data. blobs s (Key (req_Header r)) = Some (c # rest)
          \<and> read_owners (unat c) rest [] = Some (os, data)) \<longrightarrow>
        clock (snd (DeleteFileHandler s r)) = IncrementClock (clock s) (Clock (req_Header r))"
    using DeleteFileHandler_clock_parsed [of s r] by blast
  have del2: "\<not> (\<exists>c rest os data. blobs s (Key (req_Header r)) = Some (c # rest)
          \<and> read_owners (unat c) rest [] = Some (os, data)) \<longrightarrow>
        clock (snd (DeleteFileHandler s r)) = clock s"
    using DeleteFileHandler_unparsed [of s r] by auto
  show ?thesis
    using PostFileHandler_clock [of s r] GetPublicKeyHandler_clock [of s r]
      PostPublicKeyHandler_clock [of s r] del1 del2
      PostFileHandler_Success_clock [of s r] DeleteFileHandler_Success_clock [of s r]
      GetPublicKeyHandler_Success_clock [of s r] PostPublicKeyHandler_Success_clock [of s r]
    by (simp add: IncrementClock_def)
qed

theorem handlers_update_clock_witness:
  "clock (snd (PostFileHandler (server_with single_envelope) (request_from bob []))) = 8
   \<and> clock (snd (GetPublicKeyHandler empty_server (request_from alice []))) = 8
   \<and> clock (snd (PostPublicKeyHandler (server_with single_envelope) (request_from alice []))) = 8
   \<and> clock (snd (DeleteFileHandler (server_with single_envelope) (request_from alice []))) = 8
   \<and> clock (snd (DeleteFileHandler empty_server (request_from alice []))) = 5
   \<and> resp_Status (fst (PostFileHandler (server_with single_envelope) (request_from alice []))) = Success
   \<and> Clock (resp_Header (fst (PostFileHandler (server_with single_envelope) (request_from alice [])))) = 8
   \<and> resp_Status (fst (DeleteFileHandler (server_with single_envelope) (request_from alice []))) = Success
   \<and> Clock (resp_Header (fst (DeleteFileHandler (server_with single_envelope) (request_from alice [])))) = 8
   \<and> resp_Status (fst (GetPublicKeyHandler (server_with single_envelope) (request_from alice []))) = Success
   \<and> Clock (resp_Header (fst (GetPublicKeyHandler (server_with single_envelope) (request_from alice [])))) = 8
   \<and> resp_Status (fst (PostPublicKeyHandler (server_with single_envelope) (request_from alice []))) = Success
   \<and> Clock (resp_Header (fst (PostPublicKeyHandler (server_with single_envelope) (request_from alice [])))) = 8"
proof -
  let ?s = "server_with single_envelope" and ?r = "request_from alice []"
  have a: "blobs ?s (Key (req_Header ?r)) = Some (1 # owner_bytes [owner_rec alice 10] @ [42])"
    by (simp add: blobs_server_with single_envelope_def)
  have d: "disk_ok ?s"
    by (simp add: server_with_def)
  have m: "\<exists>p \<in> set [owner_rec alice 10]. pair_ID p = From (req_Header ?r)"
    by (simp add: From_request_from owner_rec_def)
  have 1: "resp_Status (fst (PostFileHandler ?s ?r)) = Success"
    using PostFileHandler_parsed [OF a parse_single] d m by (simp add: Let_def)
  have 2: "resp_Status (fst (DeleteFileHandler ?s ?r)) = Success"
    using DeleteFileHandler_parsed [OF a parse_single] d m by (simp add: Let_def)
  have 3: "resp_Status (fst (GetPublicKeyHandler ?s ?r)) = Success"
    by (simp add: GetPublicKeyHandler_result blobs_server_with Let_def)
  have 4: "resp_Status (fst (PostPublicKeyHandler ?s ?r)) = Success"
    using d by (simp add: PostPublicKeyHandler_result Let_def)
  have read: "\<exists>c rest os data. blobs ?s (Key (req_Header ?r)) = Some (c # rest)
      \<and> read_owners (unat c) rest [] = Some (os, data)"
    using a parse_single by blast
  have unread: "\<not> (\<exists>c rest os data. blobs empty_server (Key (req_Header ?r)) = Some (c # rest)
      \<and> read_owners (unat c) rest [] = Some (os, data))"
    by (simp add: blobs_empty_server)
  have c: "max (clock ?s) (Clock (req_Header ?r)) + 1 = 8"
    "max (clock ?s) (Clock (req_Header (request_from bob []))) + 1 = 8"
    "max (clock empty_server) (Clock (req_Header ?r)) + 1 = 8"
    "clock empty_server = 5"
    by (simp_all add: server_with_def empty_server_def request_from_def)
  show ?thesis
    using handlers_update_clock [of ?s ?r] handlers_update_clock [of ?s "request_from bob []"]
      handlers_update_clock [of empty_server ?r] 1 2 3 4 read unread c
    by simp
qed

section \<open>The claims about the client\<close>

lemma scan_entries_max:
  "\<forall>e \<in> set (l # es). Timestamp e \<le> Timestamp (scan_entries l es)"
proof (induction es arbitrary: l)
  case Nil
  then show ?case by simp
next
  case (Cons e es)
  let ?l = "if Timestamp e \<ge> Timestamp l then e else l"
  from Cons.IH [of ?l] have ih: "\<forall>x \<in> set (?l # es). Timestamp x \<le> Timestamp (scan_entries ?l es)" .
  then have "Timestamp ?l \<le> Timestamp (scan_entries ?l es)" by simp
  then have "Timestamp l \<le> Timestamp (scan_entries ?l es)"
    and "Timestamp e \<le> Timestamp (scan_entries ?l es)"
    by (auto split: if_splits)
  with ih show ?case by simp
qed

lemma scan_entries_split:
  "\<exists>xs ys. l # es = xs @ scan_entries l es # ys
     \<and> (\<forall>y \<in> set ys. Timestamp y < Timestamp (scan_entries l es))"
proof (induction es arbitrary: l)
  case Nil
  have "[l] = [] @ scan_entries l [] # [] \<and> (\<forall>y \<in> set []. Timestamp y < Timestamp (scan_entries l []))"
    by simp
  then show ?case by blast
next
  case (Cons e es)
  show ?case
  proof (cases "Timestamp e \<ge> Timestamp l")
    case True
    from Cons.IH [of e] obtain xs ys where s: "e # es = xs @ scan_entries e es # ys"
      and lt: "\<forall>y \<in> set ys. Timestamp y < Timestamp (scan_entries e es)"
      by blast
    from s have "l # e # es = (l # xs) @ scan_entries e es # ys" by simp
    with lt True show ?thesis
      by (simp only: scan_entries.simps if_True) blast
  next
    case False
    from Cons.IH [of l] obtain xs ys where s: "l # es = xs @ scan_entries l es # ys"
      and lt: "\<forall>y \<in> set ys. Timestamp y < Timestamp (scan_entries l es)"
      by blast
    have "\<exists>xs' ys'. l # e # es = xs' @ scan_entries l es # ys'
        \<and> (\<forall>y \<in> set ys'. Timestamp y < Timestamp (scan_entries l es))"
    proof (cases xs)
      case Nil
      with s have "l # es = scan_entries l es # ys" by (simp only: append_Nil)
      then have m: "scan_entries l es = l" and ys: "ys = es" by (metis list.inject)+
      from False m have "Timestamp e < Timestamp (scan_entries l es)" by simp
      with lt ys m have "l # e # es = [] @ scan_entries l es # (e # es)
          \<and> (\<forall>y \<in> set (e # es). Timestamp y < Timestamp (scan_entries l es))"
        by simp
      then show ?thesis by blast
    next
      case (Cons x xs')
      with s have "l # es = l # xs' @ scan_entries l es # ys"
        by (metis append_Cons list.inject)
      then have "es = xs' @ scan_entries l es # ys"
        by (rule list.inject [THEN iffD1, THEN conjunct2])
      then have "l # e # es = (l # e # xs') @ scan_entries l es # ys"
        by (metis append_Cons)
      with lt show ?thesis by blast
    qed
    with False show ?thesis
      by (simp only: scan_entries.simps if_False)
  qed
qed

lemma last_entry_Cons: "last_entry (e0 # rest) = Inr (scan_entries e0 rest)"
  by (simp add: last_entry_def)

lemma last_entry_is_max_timestamp_entry:
  assumes "entries \<noteq> []"
  shows "\<exists>e. last_entry entries = Inr e \<and> max_timestamp_entry entries = Some e"
proof -
  from assms obtain e0 rest where es: "entries = e0 # rest"
    by (cases entries) auto
  let ?m = "scan_entries e0 rest"
  let ?P = "\<lambda>e. \<forall>e' \<in> set entries. Timestamp e' \<le> Timestamp e"
  from scan_entries_split [of e0 rest] obtain xs ys where s: "entries = xs @ ?m # ys"
    and lt: "\<forall>y \<in> set ys. Timestamp y < Timestamp ?m"
    using es by blast
  have Pm: "?P ?m"
    using scan_entries_max [of e0 rest] es by simp
  have "?m \<in> set entries"
    using s by simp
  with lt have "\<forall>y \<in> set ys. \<not> ?P y"
    by (meson leD)
  then have "filter ?P ys = []"
    by (simp add: filter_empty_conv)
  with Pm have "filter ?P (xs @ ?m # ys) = filter ?P xs @ [?m]"
    by simp
  with s have f: "filter ?P entries = filter ?P xs @ [?m]"
    by simp
  have "max_timestamp_entry entries = Some ?m"
    unfolding max_timestamp_entry_def f
    by (cases "filter ?P xs") simp_all
  with es show ?thesis
    by (simp add: last_entry_Cons)
qed

text \<open>
  What the spec-side definition selects: an occurrence of the entry in the list that no
  entry exceeds and after which every entry is strictly older.
\<close>

lemma max_timestamp_entry_Some:
  assumes "max_timestamp_entry entries = Some e"
  shows "\<exists>xs ys. entries = xs @ e # ys
      \<and> (\<forall>x \<in> set entries. Timestamp x \<le> Timestamp e)
      \<and> (\<forall>y \<in> set ys. Timestamp y < Timestamp e)"
proof -
  let ?P = "\<lambda>e. \<forall>e' \<in> set entries. Timestamp e' \<le> Timestamp e"
  from assms have ne: "filter ?P entries \<noteq> []" and e: "e = last (filter ?P entries)"
    by (auto simp: max_timestamp_entry_def split: list.splits)
  from ne have "\<exists>x \<in> set entries. ?P x"
    by (simp add: filter_empty_conv)
  from split_list_last_prop [OF this] obtain xs m ys
    where s: "entries = xs @ m # ys" and Pm: "?P m" and nP: "\<forall>y \<in> set ys. \<not> ?P y"
    by blast
  from nP have "filter ?P ys = []"
    by (simp add: filter_empty_conv)
  with Pm have "filter ?P (xs @ m # ys) = filter ?P xs @ [m]"
    by simp
  then have "last (filter ?P (xs @ m # ys)) = m"
    by (simp only: last_snoc)
  with s e have "e = m"
    by (simp only:)
  have "\<forall>y \<in> set ys. Timestamp y < Timestamp m"
  proof
    fix y assume "y \<in> set ys"
    with nP obtain e' where "e' \<in> set entries" "\<not> Timestamp e' \<le> Timestamp y"
      by blast
    with Pm show "Timestamp y < Timestamp m"
      using \<open>e' \<in> set entries\<close> by (auto simp: not_le dest!: bspec [where x = e'])
  qed
  with s Pm \<open>e = m\<close> show ?thesis
    by blast
qed

lemma last_entry_Nil: "last_entry [] = Inl IndexOutOfRange"
  by (simp add: last_entry_def)

text \<open>The range loop over a longer list of keys is the loop over its parts, up to the first panic.\<close>

lemma sync_range_append:
  "sync_range tlog oldTransactionLog (ks1 @ ks2) =
     (case sync_range tlog oldTransactionLog ks1 of
        (calls, Some p) \<Rightarrow> (calls, Some p)
      | (calls, None) \<Rightarrow>
          (case sync_range tlog oldTransactionLog ks2 of (more_calls, p) \<Rightarrow> (calls @ more_calls, p)))"
  by (induction ks1) (auto split: option.splits sum.splits prod.splits)

lemma reconcile_panic_iff:
  "(\<exists>p. reconcile oldTransactionLog k v = Inl p) \<longleftrightarrow>
     Entries v = [] \<or> (\<exists>oldEntity. oldTransactionLog k = Some oldEntity \<and> Entries oldEntity = [])"
proof (cases "Entries v")
  case Nil
  then show ?thesis by (simp add: reconcile_def last_entry_Nil)
next
  case v: (Cons e0 rest)
  show ?thesis
  proof (cases "oldTransactionLog k")
    case None
    with v show ?thesis by (simp add: reconcile_def last_entry_Cons)
  next
    case (Some oldEntity)
    show ?thesis
    proof (cases "Entries oldEntity")
      case Nil
      with v Some show ?thesis by (simp add: reconcile_def last_entry_Cons last_entry_Nil)
    next
      case (Cons o0 orest)
      with v Some show ?thesis by (simp add: reconcile_def last_entry_Cons)
    qed
  qed
qed

lemma sync_range_panic_iff:
  "snd (sync_range tlog oldTransactionLog ks) \<noteq> None \<longleftrightarrow>
     (\<exists>k \<in> set ks. \<exists>v. tlog k = Some v \<and> (\<exists>p. reconcile oldTransactionLog k v = Inl p))"
proof (induction ks)
  case Nil
  then show ?case by simp
next
  case (Cons k ks)
  show ?case
  proof (cases "tlog k")
    case None
    with Cons.IH show ?thesis by simp
  next
    case (Some v)
    show ?thesis
    proof (cases "reconcile oldTransactionLog k v")
      case (Inl p)
      with Some show ?thesis by auto
    next
      case (Inr calls)
      with Some Cons.IH show ?thesis
        by (auto split: prod.splits)
    qed
  qed
qed

text \<open>\<open>Synchronize\<close> on a fetched log, and the calls it makes once the walk has ended.\<close>

lemma Synchronize_Some:
  "Synchronize (Some tlog) visits ks oldTransactionLog =
     (case walk_files tlog visits of
        (posted, Some p) \<Rightarrow> (posted, Inl p)
      | (posted, None) \<Rightarrow>
          (case sync_range tlog oldTransactionLog ks of
             (calls, Some p) \<Rightarrow> (posted @ calls, Inl p)
           | (calls, None) \<Rightarrow> (posted @ calls, Inr tlog)))"
  by (simp add: Synchronize_def)

lemma fst_Synchronize_walked:
  assumes "walk_files tlog visits = (posted, None)"
  shows "fst (Synchronize (Some tlog) visits ks oldTransactionLog)
           = posted @ fst (sync_range tlog oldTransactionLog ks)"
  using assms by (simp add: Synchronize_Some split: prod.splits option.splits)

lemma reconcile_present_in_both:
  assumes "oldTransactionLog k = Some oldEntity"
    and "last_entry (Entries v) = Inr r"
    and "last_entry (Entries oldEntity) = Inr l"
  shows "reconcile oldTransactionLog k v = Inr
        (if Timestamp l < Timestamp r then
           (if Operation r = DeleteOperation then [CallRemove k] else [CallGetFile k])
         else if Timestamp l = Timestamp r then []
         else (if Operation l = DeleteOperation then [CallDeleteFile k] else [CallPostFile k]))"
  using assms by (simp add: reconcile_def)

lemma fst_sync_range_reaches:
  assumes "sync_range tlog oldTransactionLog ks_before = (calls_before, None)"
    and "tlog k = Some v"
    and "reconcile oldTransactionLog k v = Inr calls"
  shows "fst (sync_range tlog oldTransactionLog (ks_before @ k # ks_after))
           = calls_before @ calls @ fst (sync_range tlog oldTransactionLog ks_after)"
  using assms by (simp add: sync_range_append split: prod.splits)

text \<open>
  C1, amended: for every path \<open>k\<close> present in both the fetched remote log and the prior
  log, with entries in both entities, that the range loop reaches (the directory walk and the
  keys visited before \<open>k\<close> end without a panic), \<open>Synchronize\<close> selects as each log's last
  entry the entry with maximum timestamp, the later one in the list on ties, and then, after
  the calls of the walk and of the earlier keys and before those of the later keys: when the
  prior log's last timestamp is strictly less than the remote one it downloads the file, or
  removes the local file when the remote last operation is Delete; when the two are equal it
  makes no call; when it is strictly greater it calls \<open>PostFile\<close>, or \<open>DeleteFile\<close> when the
  prior last operation is Delete.
\<close>

theorem Synchronize_last_writer_wins:
  assumes "walk_files tlog visits = (posted, None)"
    and "sync_range tlog oldTransactionLog ks_before = (calls_before, None)"
    and "tlog k = Some v"
    and "oldTransactionLog k = Some oldEntity"
    and "Entries v \<noteq> []"
    and "Entries oldEntity \<noteq> []"
  shows "\<exists>remote_last local_last.
      last_entry (Entries v) = Inr remote_last
    \<and> max_timestamp_entry (Entries v) = Some remote_last
    \<and> last_entry (Entries oldEntity) = Inr local_last
    \<and> max_timestamp_entry (Entries oldEntity) = Some local_last
    \<and> fst (Synchronize (Some tlog) visits (ks_before @ k # ks_after) oldTransactionLog) =
        posted @ calls_before
        @ (if Timestamp local_last < Timestamp remote_last then
             (if Operation remote_last = DeleteOperation then [CallRemove k] else [CallGetFile k])
           else if Timestamp local_last = Timestamp remote_last then []
           else
             (if Operation local_last = DeleteOperation then [CallDeleteFile k] else [CallPostFile k]))
        @ fst (sync_range tlog oldTransactionLog ks_after)"
proof -
  from last_entry_is_max_timestamp_entry [OF assms(5)] obtain r
    where r: "last_entry (Entries v) = Inr r" "max_timestamp_entry (Entries v) = Some r"
    by blast
  from last_entry_is_max_timestamp_entry [OF assms(6)] obtain l
    where l: "last_entry (Entries oldEntity) = Inr l" "max_timestamp_entry (Entries oldEntity) = Some l"
    by blast
  let ?calls = "if Timestamp l < Timestamp r then
           (if Operation r = DeleteOperation then [CallRemove k] else [CallGetFile k])
         else if Timestamp l = Timestamp r then []
         else (if Operation l = DeleteOperation then [CallDeleteFile k] else [CallPostFile k])"
  have "reconcile oldTransactionLog k v = Inr ?calls"
    using assms(4) r(1) l(1) by (simp add: reconcile_def)
  from fst_sync_range_reaches [OF assms(2,3) this]
  have "fst (sync_range tlog oldTransactionLog (ks_before @ k # ks_after))
      = calls_before @ ?calls @ fst (sync_range tlog oldTransactionLog ks_after)" .
  with fst_Synchronize_walked [OF assms(1)]
  have "fst (Synchronize (Some tlog) visits (ks_before @ k # ks_after) oldTransactionLog)
      = posted @ calls_before @ ?calls @ fst (sync_range tlog oldTransactionLog ks_after)"
    by simp
  with r l show ?thesis by blast
qed

lemma Entries_entity: "Entries (entity path es) = es"
  by (simp add: entity_def)

lemma walk_example: "walk_files remote_two visits_example = ([CallPostFile ''c.txt''], None)"
  by (simp add: visits_example_def remote_two_def log_with_def)

lemma range_b_example:
  "sync_range remote_two (log_with prior_entries) [''b.txt''] = ([CallGetFile ''b.txt''], None)"
  by (simp add: remote_two_def log_with_def reconcile_def last_entry_def Entries_entity)

lemma last_remote_entries: "last_entry (Entries (entity ''a.txt'' remote_entries)) = Inr (entry UpdateOperation 7)"
  by (simp add: Entries_entity remote_entries_def last_entry_def entry_def)

lemma last_prior_entries: "last_entry (Entries (entity ''a.txt'' prior_entries)) = Inr (entry UpdateOperation 5)"
  by (simp add: Entries_entity prior_entries_def last_entry_def entry_def)

theorem Synchronize_last_writer_wins_witness:
  "last_entry (Entries (entity ''a.txt'' remote_entries)) = Inr (entry UpdateOperation 7)
   \<and> last_entry (Entries (entity ''a.txt'' prior_entries)) = Inr (entry UpdateOperation 5)
   \<and> fst (Synchronize (Some remote_two) visits_example ([''b.txt''] @ ''a.txt'' # [])
          (log_with prior_entries))
       = [CallPostFile ''c.txt''] @ [CallGetFile ''b.txt''] @ [CallGetFile ''a.txt''] @ []"
proof -
  have 3: "remote_two ''a.txt'' = Some (entity ''a.txt'' remote_entries)"
    by (simp add: remote_two_def log_with_def)
  have 4: "log_with prior_entries ''a.txt'' = Some (entity ''a.txt'' prior_entries)"
    by (simp add: log_with_def)
  have 5: "Entries (entity ''a.txt'' remote_entries) \<noteq> []"
    by (simp add: Entries_entity remote_entries_def)
  have 6: "Entries (entity ''a.txt'' prior_entries) \<noteq> []"
    by (simp add: Entries_entity prior_entries_def)
  from Synchronize_last_writer_wins
    [where tlog = remote_two and visits = visits_example and posted = "[CallPostFile ''c.txt'']"
       and oldTransactionLog = "log_with prior_entries" and ks_before = "[''b.txt'']"
       and calls_before = "[CallGetFile ''b.txt'']" and k = "''a.txt''"
       and v = "entity ''a.txt'' remote_entries" and oldEntity = "entity ''a.txt'' prior_entries"
       and ks_after = "[]",
     OF walk_example range_b_example 3 4 5 6, unfolded last_remote_entries last_prior_entries]
  have "fst (Synchronize (Some remote_two) visits_example ([''b.txt''] @ ''a.txt'' # [])
          (log_with prior_entries))
       = [CallPostFile ''c.txt''] @ [CallGetFile ''b.txt''] @ [CallGetFile ''a.txt''] @ []"
    by (auto simp: entry_def)
  with last_remote_entries last_prior_entries show ?thesis by simp
qed

text \<open>
  C1, as stated: for every path present in both logs \<open>Synchronize\<close> selects the last entries
  and acts on them. The path \<open>a.txt\<close> is in both logs below, with a prior last timestamp 5
  and a remote one 7, and no call is made for it: in the first run the loop visits \<open>b.txt\<close>
  first, whose entity has no entries, and panics there; in the second the prior entity of
  \<open>a.txt\<close> itself has no entries; in the third the walk panics on a nil \<open>FileInfo\<close> before
  the loop starts.
\<close>

theorem Synchronize_last_writer_wins_counterexample:
  "remote_broken ''a.txt'' = Some (entity ''a.txt'' remote_entries)
   \<and> log_with prior_entries ''a.txt'' = Some (entity ''a.txt'' prior_entries)
   \<and> Synchronize (Some remote_broken) visits_example [''b.txt'', ''a.txt''] (log_with prior_entries)
       = ([CallPostFile ''c.txt''], Inl IndexOutOfRange)
   \<and> Synchronize (Some (log_with remote_entries)) visits_example [''a.txt''] (log_with [])
       = ([CallPostFile ''c.txt''], Inl IndexOutOfRange)
   \<and> Synchronize (Some remote_two) visits_unreadable [''b.txt'', ''a.txt''] (log_with prior_entries)
       = ([], Inl NilDereference)"
  by (simp add: Synchronize_Some remote_broken_def remote_two_def log_with_def visits_example_def
      visits_unreadable_def reconcile_def last_entry_def Entries_entity remote_entries_def
      prior_entries_def entry_def)

lemma snd_Synchronize_Some:
  "snd (Synchronize (Some tlog) visits ks oldTransactionLog) =
     (case snd (walk_files tlog visits) of
        Some p \<Rightarrow> Inl p
      | None \<Rightarrow>
          (case snd (sync_range tlog oldTransactionLog ks) of
             Some p \<Rightarrow> Inl p
           | None \<Rightarrow> Inr tlog))"
proof -
  obtain posted p where w: "walk_files tlog visits = (posted, p)"
    by (cases "walk_files tlog visits")
  obtain calls q where l: "sync_range tlog oldTransactionLog ks = (calls, q)"
    by (cases "sync_range tlog oldTransactionLog ks")
  show ?thesis
    by (cases p; cases q) (simp_all add: Synchronize_Some w l)
qed

lemma walk_files_panic: "snd (walk_files tlog visits) = Some p \<Longrightarrow> p = NilDereference"
proof (induction visits)
  case Nil
  then show ?case by simp
next
  case (Cons x visits)
  obtain path fi where x: "x = (path, fi)" by (cases x)
  show ?case
  proof (cases fi)
    case None
    with Cons.prems x show ?thesis by simp
  next
    case (Some isDir)
    with Cons.prems x have "snd (walk_files tlog visits) = Some p"
      by (simp split: prod.splits)
    then show ?thesis by (rule Cons.IH)
  qed
qed

lemma reconcile_panic: "reconcile oldTransactionLog k v = Inl p \<Longrightarrow> p = IndexOutOfRange"
  by (cases p) (simp_all add: reconcile_def last_entry_def split: list.splits option.splits if_splits)

lemma sync_range_panic: "snd (sync_range tlog oldTransactionLog ks) = Some p \<Longrightarrow> p = IndexOutOfRange"
proof (induction ks)
  case Nil
  then show ?case by simp
next
  case (Cons k ks)
  show ?case
  proof (cases "tlog k")
    case None
    with Cons show ?thesis by simp
  next
    case (Some v)
    show ?thesis
    proof (cases "reconcile oldTransactionLog k v")
      case (Inl q)
      with Some Cons.prems have "p = q" by simp
      with Inl show ?thesis by (simp add: reconcile_panic)
    next
      case (Inr calls)
      with Some Cons.prems have "snd (sync_range tlog oldTransactionLog ks) = Some p"
        by (simp split: prod.splits)
      then show ?thesis by (rule Cons.IH)
    qed
  qed
qed


text \<open>
  C9, amended: once the directory walk has ended without a panic, \<open>Synchronize\<close> reads
  \<open>Entries[0]\<close> of every entity of the fetched log, and of the prior log's entity at every
  path that the fetched log has too, before any other use of the entity; on an empty slice
  that read panics. So, whatever the order of the range loop over the keys of the fetched
  log, the run ends in the index panic exactly when the walk has ended and one of these
  entities has an empty entries list, and it returns the log exactly when the walk has ended
  and every one of them has a non-empty entries list.
\<close>

theorem Synchronize_index_panic_iff:
  assumes "set ks = dom tlog"
  shows "last_entry [] = Inl IndexOutOfRange
       \<and> (snd (Synchronize (Some tlog) visits ks oldTransactionLog) = Inl IndexOutOfRange \<longleftrightarrow>
            snd (walk_files tlog visits) = None
          \<and> (\<exists>k v. tlog k = Some v
                \<and> (Entries v = []
                   \<or> (\<exists>oldEntity. oldTransactionLog k = Some oldEntity \<and> Entries oldEntity = []))))
       \<and> ((\<exists>log. snd (Synchronize (Some tlog) visits ks oldTransactionLog) = Inr log) \<longleftrightarrow>
            snd (walk_files tlog visits) = None
          \<and> (\<forall>k v. tlog k = Some v \<longrightarrow>
                Entries v \<noteq> []
              \<and> (\<forall>oldEntity. oldTransactionLog k = Some oldEntity \<longrightarrow> Entries oldEntity \<noteq> [])))"
proof -
  let ?empty = "\<exists>k v. tlog k = Some v
      \<and> (Entries v = [] \<or> (\<exists>oldEntity. oldTransactionLog k = Some oldEntity \<and> Entries oldEntity = []))"
  let ?w = "snd (walk_files tlog visits)"
  let ?l = "snd (sync_range tlog oldTransactionLog ks)"
  have "(\<exists>k \<in> set ks. \<exists>v. tlog k = Some v \<and> (\<exists>p. reconcile oldTransactionLog k v = Inl p))
      \<longleftrightarrow> (\<exists>k v. tlog k = Some v \<and> (\<exists>p. reconcile oldTransactionLog k v = Inl p))"
    using assms by auto
  then have loop: "?l \<noteq> None \<longleftrightarrow> ?empty"
    unfolding sync_range_panic_iff reconcile_panic_iff .
  have 1: "snd (Synchronize (Some tlog) visits ks oldTransactionLog) = Inl IndexOutOfRange \<longleftrightarrow>
      ?w = None \<and> ?l \<noteq> None"
  proof (cases ?w)
    case None
    show ?thesis
    proof (cases ?l)
      case l: None
      with None show ?thesis by (simp add: snd_Synchronize_Some)
    next
      case l: (Some q)
      with sync_range_panic [OF l] None show ?thesis by (simp add: snd_Synchronize_Some)
    qed
  next
    case (Some p)
    with walk_files_panic [OF Some] show ?thesis by (simp add: snd_Synchronize_Some)
  qed
  have 2: "(\<exists>log. snd (Synchronize (Some tlog) visits ks oldTransactionLog) = Inr log) \<longleftrightarrow>
      ?w = None \<and> ?l = None"
    by (cases ?w; cases ?l) (simp_all add: snd_Synchronize_Some)
  have 3: "(\<not> ?empty) \<longleftrightarrow> (\<forall>k v. tlog k = Some v \<longrightarrow>
                Entries v \<noteq> []
              \<and> (\<forall>oldEntity. oldTransactionLog k = Some oldEntity \<longrightarrow> Entries oldEntity \<noteq> []))"
    by blast
  from loop have 4: "?l = None \<longleftrightarrow> \<not> ?empty"
    by blast
  show ?thesis
    unfolding 1 2 loop 4 3 by (simp add: last_entry_Nil)
qed

text \<open>
  C9, as stated: \<open>Synchronize\<close> unconditionally reads \<open>Entries[0]\<close> of every entity of both
  logs. The prior log \<open>prior_with_extra\<close> has an entity without entries at \<open>z.txt\<close>, a path
  the fetched log does not have: it is never read, and \<open>Synchronize\<close> returns the log. And
  when the walk meets a nil \<open>FileInfo\<close>, the run ends there by a nil dereference: the
  entity without entries of the fetched log \<open>remote_broken\<close> is not read either.
\<close>

theorem Synchronize_reads_every_entity_counterexample:
  "prior_with_extra ''z.txt'' = Some (entity ''z.txt'' [])
   \<and> Entries (entity ''z.txt'' []) = []
   \<and> Synchronize (Some remote_two) visits_example [''b.txt'', ''a.txt''] prior_with_extra
       = ([CallPostFile ''c.txt'', CallGetFile ''b.txt'', CallGetFile ''a.txt''], Inr remote_two)
   \<and> remote_broken ''b.txt'' = Some (entity ''b.txt'' [])
   \<and> Synchronize (Some remote_broken) visits_unreadable [''b.txt'', ''a.txt''] (log_with prior_entries)
       = ([], Inl NilDereference)"
  by (simp add: Synchronize_Some remote_broken_def remote_two_def prior_with_extra_def log_with_def
      visits_example_def visits_unreadable_def reconcile_def last_entry_def Entries_entity
      remote_entries_def prior_entries_def entry_def)

lemma walk_broken_example: "snd (walk_files remote_broken visits_example) = None"
  by (simp add: visits_example_def remote_broken_def log_with_def)

theorem Synchronize_index_panic_iff_witness:
  "set [''b.txt'', ''a.txt''] = dom remote_broken
   \<and> set [''b.txt'', ''a.txt''] = dom remote_two
   \<and> snd (Synchronize (Some remote_broken) visits_example [''b.txt'', ''a.txt''] (log_with prior_entries))
       = Inl IndexOutOfRange
   \<and> (\<exists>log. snd (Synchronize (Some remote_two) visits_example [''b.txt'', ''a.txt''] prior_with_extra)
        = Inr log)"
proof -
  have d1: "set [''b.txt'', ''a.txt''] = dom remote_broken"
    by (auto simp: remote_broken_def log_with_def)
  have d2: "set [''b.txt'', ''a.txt''] = dom remote_two"
    by (auto simp: remote_two_def log_with_def)
  have bad: "\<exists>k v. remote_broken k = Some v
      \<and> (Entries v = []
         \<or> (\<exists>oldEntity. log_with prior_entries k = Some oldEntity \<and> Entries oldEntity = []))"
  proof (intro exI conjI)
    show "remote_broken ''b.txt'' = Some (entity ''b.txt'' [])"
      by (simp add: remote_broken_def)
    show "Entries (entity ''b.txt'' []) = []
        \<or> (\<exists>oldEntity. log_with prior_entries ''b.txt'' = Some oldEntity \<and> Entries oldEntity = [])"
      by (simp add: Entries_entity)
  qed
  have good: "\<forall>k v. remote_two k = Some v \<longrightarrow>
      Entries v \<noteq> []
    \<and> (\<forall>oldEntity. prior_with_extra k = Some oldEntity \<longrightarrow> Entries oldEntity \<noteq> [])"
    by (auto simp: remote_two_def prior_with_extra_def log_with_def entity_def remote_entries_def
        prior_entries_def split: if_splits)
  have w: "snd (walk_files remote_two visits_example) = None"
    by (simp add: walk_example)
  from Synchronize_index_panic_iff [OF d1, of visits_example "log_with prior_entries"]
    walk_broken_example bad
  have 1: "snd (Synchronize (Some remote_broken) visits_example [''b.txt'', ''a.txt'']
      (log_with prior_entries)) = Inl IndexOutOfRange"
    by blast
  from Synchronize_index_panic_iff [OF d2, of visits_example prior_with_extra] w good
  have 2: "\<exists>log. snd (Synchronize (Some remote_two) visits_example [''b.txt'', ''a.txt'']
      prior_with_extra) = Inr log"
    by blast
  from d1 d2 1 2 show ?thesis by blast
qed

text \<open>
  C2 at a failing input: the request that the client's \<open>PostFile\<close> sends carries the bytes
  read from the local file as they are, and no secret. For the five-byte file \<open>hello\<close> the
  data is shorter than one IV, and a server without an envelope for the key stores the
  owner-count byte, the client's id and the raw file.
\<close>

theorem PostFile_uploads_raw_file:
  "req_Data (PostFile_request sha1_Sum clientID path data clk) = data
   \<and> Secret (req_Header (PostFile_request sha1_Sum clientID path data clk)) = []
   \<and> req_Data (PostFile_request sha1_const alice ''x.txt'' hello 7) = hello
   \<and> length (req_Data (PostFile_request sha1_const alice ''x.txt'' hello 7)) < aes_BlockSize
   \<and> blobs (snd (PostFileHandler empty_server (PostFile_request sha1_const alice ''x.txt'' hello 7)))
        resource_key = Some (1 # id_bytes alice @ hello)"
proof -
  have k: "blobs empty_server (Key (req_Header (PostFile_request sha1_const alice ''x.txt'' hello 7)))
      = None"
    by (rule blobs_empty_server)
  have "blobs (snd (PostFileHandler empty_server (PostFile_request sha1_const alice ''x.txt'' hello 7)))
        resource_key = Some (1 # id_bytes alice @ hello)"
    using PostFileHandler_absent [OF k]
    by (simp add: Let_def) (simp add: PostFile_request_def empty_server_def zero_Header_def sha1_const_def)
  then show ?thesis
    by (simp add: PostFile_request_def zero_Header_def hello_def aes_BlockSize_def)
qed

end
